theory Spec2Isabelle
  imports Main "HOL-Library.Word" "HOL-Library.Monad_Syntax"
begin

unbundle bit_operations_syntax

section \<open>Embedding of the sources\<close>

subsection \<open>Random source (\<^verbatim>\<open>sources/random.cpp\<close>)\<close>

text \<open>
  \<^verbatim>\<open>U64\<close> and \<^verbatim>\<open>S32\<close> are the 64-bit unsigned and the 32-bit signed integer
  of \<^verbatim>\<open>integers.hpp\<close>; a signed value is a word read through \<open>sint\<close>.
  The four static variables \<^verbatim>\<open>x\<close>, \<^verbatim>\<open>y\<close>, \<^verbatim>\<open>z\<close>, \<^verbatim>\<open>w\<close> of the generator
  are the fields \<open>var_x\<close>, \<open>var_y\<close>, \<open>var_z\<close>, \<open>var_w\<close> of one record (a field
  named by a single letter would capture the variables of every later statement).
  Static storage is zero-initialised, so the program starts in \<open>initial_generator\<close>.
\<close>

type_synonym U64 = "64 word"
type_synonym S32 = "32 word"

record generator =
  var_x :: U64
  var_y :: U64
  var_z :: U64
  var_w :: U64

definition initial_generator :: generator where
  "initial_generator = \<lparr>var_x = 0, var_y = 0, var_z = 0, var_w = 0\<rparr>"

text \<open>
  \<^verbatim>\<open>xorshift128\<close> returns the new \<^verbatim>\<open>w\<close> and leaves the shifted state behind.
\<close>

definition xorshift128 :: "generator \<Rightarrow> U64 \<times> generator" where
  "xorshift128 g =
     (let t = var_x g;
          t = t XOR push_bit 11 t;
          t = t XOR drop_bit 8 t;
          w' = var_w g XOR drop_bit 19 (var_w g);
          w' = w' XOR t
      in (w', \<lparr>var_x = var_y g, var_y = var_z g, var_z = var_w g, var_w = w'\<rparr>))"

text \<open>
  \<^verbatim>\<open>seed_random\<close> stores \<^verbatim>\<open>time(nullptr)\<close> in \<^verbatim>\<open>x\<close> and touches nothing else.
  The reading of the clock is the parameter \<open>now\<close>.
\<close>

definition seed_random :: "U64 \<Rightarrow> generator \<Rightarrow> generator" where
  "seed_random now g = g\<lparr>var_x := now\<rparr>"

text \<open>The loop of \<^verbatim>\<open>find_next_power_of_two\<close>, on its two variables.\<close>

function fnp2_loop :: "U64 \<Rightarrow> U64 \<Rightarrow> U64" where
  "fnp2_loop number result =
     (if number \<noteq> 0 then fnp2_loop (drop_bit 1 number) (push_bit 1 result) else result)"
  by pat_completeness auto
termination
proof (relation "measure (\<lambda>(number, result). unat number)")
  show "wf (measure (\<lambda>(number :: U64, result :: U64). unat number))"
    by simp
next
  fix number result :: U64
  assume "number \<noteq> 0"
  then have "unat number \<noteq> 0"
    by (simp add: unat_eq_0)
  then have "unat number div 2 < unat number"
    by simp
  then show "((drop_bit 1 number, push_bit 1 result), (number, result))
      \<in> measure (\<lambda>(number, result). unat number)"
    by (simp add: drop_bit_eq_div unat_div)
qed

definition find_next_power_of_two :: "U64 \<Rightarrow> U64" where
  "find_next_power_of_two number = fnp2_loop number 1"

text \<open>
  The \<^verbatim>\<open>do ... while (value >= range)\<close> loop of \<^verbatim>\<open>random_integer\<close>. It has no bound
  on its iterations, so it is a partial function: \<open>None\<close> stands for a run that does not
  return (a zero modulus, where \<^verbatim>\<open>%\<close> traps, is \<open>None\<close> as well).
\<close>

partial_function (option) sample_loop ::
  "U64 \<Rightarrow> U64 \<Rightarrow> generator \<Rightarrow> (U64 \<times> generator) option" where
  "sample_loop range' next_power_of_two g =
     (if next_power_of_two = 0 then None
      else case xorshift128 g of (r, g') \<Rightarrow>
        (let v = r mod next_power_of_two
         in if v \<ge> range' then sample_loop range' next_power_of_two g' else Some (v, g')))"

text \<open>
  \<^verbatim>\<open>static_cast<U64>(maximum) - minimum + 1\<close> converts both 32-bit operands to 64 bits
  with sign extension (\<open>scast\<close>) and computes modulo \<open>2 ^ 64\<close>;
  \<^verbatim>\<open>static_cast<S32>(minimum + value)\<close> keeps the low 32 bits (\<open>ucast\<close>).
\<close>

definition random_integer :: "S32 \<Rightarrow> S32 \<Rightarrow> generator \<Rightarrow> (S32 \<times> generator) option" where
  "random_integer minimum maximum g =
     (if sint maximum < sint minimum then Some (0, g)
      else
        (let range' = (scast maximum :: U64) - scast minimum + 1;
             next_power_of_two = find_next_power_of_two range'
         in case sample_loop range' next_power_of_two g of
              None \<Rightarrow> None
            | Some (v, g') \<Rightarrow> Some (ucast ((scast minimum :: U64) + v), g')))"

text \<open>
  The specification's reading of \<^verbatim>\<open>find_next_power_of_two\<close>, written from its words:
  the smallest power of two that is at least \<open>n\<close>.
\<close>

fun smallest_power_of_two_at_least :: "nat \<Rightarrow> nat" where
  "smallest_power_of_two_at_least n =
     (if n \<le> 1 then 1 else 2 * smallest_power_of_two_at_least ((n + 1) div 2))"

declare smallest_power_of_two_at_least.simps [simp del]

text \<open>The number of binary digits of a natural number, used to describe the loop.\<close>

fun bit_length :: "nat \<Rightarrow> nat" where
  "bit_length n = (if n = 0 then 0 else Suc (bit_length (n div 2)))"

declare bit_length.simps [simp del]

declare sample_loop.simps [code]

text \<open>
  A run of a client of the generator: a sequence of calls of \<^verbatim>\<open>seed_random\<close> (with the
  clock reading it gets), \<^verbatim>\<open>xorshift128\<close> and \<^verbatim>\<open>random_integer\<close>, each on the state
  the previous one left. The run is \<open>None\<close> if one of the calls does not return.
\<close>

datatype call = Call_seed_random U64 | Call_xorshift128 | Call_random_integer S32 S32

datatype call_result = Result_unit | Result_U64 U64 | Result_S32 S32

fun run_calls :: "call list \<Rightarrow> generator \<Rightarrow> (call_result list \<times> generator) option" where
  "run_calls [] g = Some ([], g)"
| "run_calls (Call_seed_random now # cs) g =
     map_option (\<lambda>(rs, g'). (Result_unit # rs, g')) (run_calls cs (seed_random now g))"
| "run_calls (Call_xorshift128 # cs) g =
     (case xorshift128 g of (r, g') \<Rightarrow>
        map_option (\<lambda>(rs, g''). (Result_U64 r # rs, g'')) (run_calls cs g'))"
| "run_calls (Call_random_integer minimum maximum # cs) g =
     (case random_integer minimum maximum g of
        None \<Rightarrow> None
      | Some (r, g') \<Rightarrow> map_option (\<lambda>(rs, g''). (Result_S32 r # rs, g'')) (run_calls cs g'))"


subsection \<open>Commands and input events (\<^verbatim>\<open>walls-of-doom/io.c\<close>)\<close>

text \<open>
  The \<^verbatim>\<open>Command\<close> enumeration of \<^verbatim>\<open>command.h\<close>, with the members that
  \<^verbatim>\<open>io.c\<close> and the joystick code name.
\<close>

datatype Command =
    COMMAND_NONE | COMMAND_UP | COMMAND_LEFT | COMMAND_CENTER | COMMAND_RIGHT | COMMAND_DOWN
  | COMMAND_JUMP | COMMAND_ENTER | COMMAND_CONVERT | COMMAND_INVEST | COMMAND_PAUSE
  | COMMAND_QUIT | COMMAND_CLOSE

text \<open>
  An \<^verbatim>\<open>SDL_Event\<close> as far as \<^verbatim>\<open>io.c\<close> reads it: \<^verbatim>\<open>event.type\<close>,
  \<^verbatim>\<open>event.key.keysym.sym\<close> and \<^verbatim>\<open>event.text.text\<close>. The event types and key codes
  that the code does not name are \<open>SDL_OTHER_EVENT\<close> and \<open>SDLK_OTHER\<close>.
\<close>

datatype SDL_EventType = SDL_QUIT | SDL_KEYDOWN | SDL_TEXTINPUT | SDL_OTHER_EVENT

datatype SDL_Keycode =
    SDLK_KP_8 | SDLK_UP | SDLK_KP_4 | SDLK_LEFT | SDLK_KP_5 | SDLK_KP_6 | SDLK_RIGHT
  | SDLK_KP_2 | SDLK_DOWN | SDLK_SPACE | SDLK_RETURN | SDLK_KP_ENTER | SDLK_c | SDLK_q
  | SDLK_BACKSPACE | SDLK_OTHER

record SDL_Event =
  event_type :: SDL_EventType
  key_sym :: SDL_Keycode
  text_text :: string

definition command_from_event :: "SDL_Event \<Rightarrow> Command" where
  "command_from_event event =
     (if event_type event = SDL_QUIT then COMMAND_CLOSE
      else if event_type event = SDL_KEYDOWN then
        (let keycode = key_sym event
         in if keycode = SDLK_KP_8 \<or> keycode = SDLK_UP then COMMAND_UP
            else if keycode = SDLK_KP_4 \<or> keycode = SDLK_LEFT then COMMAND_LEFT
            else if keycode = SDLK_KP_5 then COMMAND_CENTER
            else if keycode = SDLK_KP_6 \<or> keycode = SDLK_RIGHT then COMMAND_RIGHT
            else if keycode = SDLK_KP_2 \<or> keycode = SDLK_DOWN then COMMAND_DOWN
            else if keycode = SDLK_SPACE then COMMAND_JUMP
            else if keycode = SDLK_RETURN \<or> keycode = SDLK_KP_ENTER then COMMAND_ENTER
            else if keycode = SDLK_c then COMMAND_CONVERT
            else if keycode = SDLK_q then COMMAND_QUIT
            else COMMAND_NONE)
      else COMMAND_NONE)"

text \<open>
  \<^verbatim>\<open>read_next_command\<close>: the pending events are a queue, \<^verbatim>\<open>SDL_PollEvent\<close> takes its
  head and returns 0 once the queue is empty. The loop carries \<^verbatim>\<open>last_valid_command\<close>;
  the result is the command together with what is left of the queue.
\<close>

fun read_next_command_loop :: "SDL_Event list \<Rightarrow> Command \<Rightarrow> Command \<times> SDL_Event list" where
  "read_next_command_loop [] last_valid_command = (last_valid_command, [])"
| "read_next_command_loop (event # pending) last_valid_command =
     (let current = command_from_event event
      in read_next_command_loop pending
           (if current \<noteq> COMMAND_NONE then current else last_valid_command))"

definition read_next_command :: "SDL_Event list \<Rightarrow> Command \<times> SDL_Event list" where
  "read_next_command pending = read_next_command_loop pending COMMAND_NONE"

subsection \<open>Reading a string (\<^verbatim>\<open>read_string\<close> in \<^verbatim>\<open>walls-of-doom/io.c\<close>)\<close>

datatype Code = CODE_OK | CODE_ERROR | CODE_QUIT

text \<open>
  \<^verbatim>\<open>isalnum\<close> in the C locale: the decimal digits and the unaccented letters.
\<close>

definition isalnum :: "char \<Rightarrow> bool" where
  "isalnum c \<longleftrightarrow>
     (let n = (of_char c :: nat)
      in (48 \<le> n \<and> n \<le> 57) \<or> (65 \<le> n \<and> n \<le> 90) \<or> (97 \<le> n \<and> n \<le> 122))"

definition is_valid_input_character :: "char \<Rightarrow> bool" where
  "is_valid_input_character c = isalnum c"

text \<open>
  The destination buffer is the list of its bytes. \<^verbatim>\<open>strlen\<close> counts the bytes before the
  first NUL; on a buffer without a NUL it runs off the end, which is \<open>None\<close>.
\<close>

definition NUL :: char where
  "NUL = CHR 0x00"

definition strlen :: "string \<Rightarrow> nat option" where
  "strlen buffer =
     (if NUL \<in> set buffer then Some (length (takeWhile (\<lambda>c. c \<noteq> NUL) buffer)) else None)"

text \<open>
  A store through the \<^verbatim>\<open>write\<close> pointer. The function may use the \<^verbatim>\<open>size\<close> bytes
  that start at \<^verbatim>\<open>destination\<close>: a store at an offset of \<^verbatim>\<open>size\<close> or more, or past the
  end of the buffer, is the fault \<open>None\<close>.
\<close>

definition store :: "nat \<Rightarrow> nat \<Rightarrow> char \<Rightarrow> string \<Rightarrow> string option" where
  "store size' offset c buffer =
     (if offset < size' \<and> offset < length buffer then Some (buffer[offset := c]) else None)"

text \<open>
  The variables of \<^verbatim>\<open>read_string\<close> that the loop changes. \<open>write_pointer\<close> is the offset of
  the pointer \<^verbatim>\<open>write\<close> from \<^verbatim>\<open>destination\<close>. The rendering block at the head of the loop
  (\<^verbatim>\<open>clear\<close>, \<^verbatim>\<open>print\<close>, \<^verbatim>\<open>print_limited\<close>, \<^verbatim>\<open>present\<close>) only reads the buffer and
  resets \<^verbatim>\<open>should_rerender\<close>; of it the model keeps the reset.
\<close>

record read_string_state =
  destination :: string
  written :: nat
  write_pointer :: nat
  is_done :: bool
  should_rerender :: bool

datatype read_string_outcome = Waiting | Returned Code | Faulted

text \<open>
  The body of the loop after the rendering block, for one result of \<^verbatim>\<open>SDL_WaitEvent\<close>:
  \<open>None\<close> is the failed wait (the function returned 0), \<open>Some event\<close> the event
  delivered. The result is the fault, the early \<^verbatim>\<open>return CODE_QUIT\<close>, or the next state.
\<close>

definition read_string_event ::
  "nat \<Rightarrow> SDL_Event option \<Rightarrow> read_string_state \<Rightarrow> read_string_outcome \<times> read_string_state" where
  "read_string_event size' waited s =
     (case waited of
        None \<Rightarrow> (Waiting, s)
      | Some event \<Rightarrow>
          if event_type event = SDL_QUIT then (Returned CODE_QUIT, s)
          else if event_type event = SDL_KEYDOWN then
            (if key_sym event = SDLK_BACKSPACE \<and> written s > 0 then
               (case store size' (write_pointer s - 1) NUL (destination s) of
                  None \<Rightarrow> (Faulted, s)
                | Some buffer \<Rightarrow>
                    (Waiting, s\<lparr>destination := buffer, write_pointer := write_pointer s - 1,
                       written := written s - 1, should_rerender := True\<rparr>))
             else if key_sym event = SDLK_RETURN then (Waiting, s\<lparr>is_done := True\<rparr>)
             else (Waiting, s))
          else if event_type event = SDL_TEXTINPUT then
            (let character = (case text_text event of [] \<Rightarrow> NUL | c # cs \<Rightarrow> c)
             in if is_valid_input_character character \<and> written s + 1 < size' then
                  (case store size' (write_pointer s) character (destination s) of
                     None \<Rightarrow> (Faulted, s)
                   | Some buffer \<Rightarrow>
                       (case store size' (write_pointer s + 1) NUL buffer of
                          None \<Rightarrow> (Faulted, s\<lparr>destination := buffer\<rparr>)
                        | Some buffer' \<Rightarrow>
                            (Waiting, s\<lparr>destination := buffer', write_pointer := write_pointer s + 1,
                               written := written s + 1, should_rerender := True\<rparr>)))
                else (Waiting, s))
          else (Waiting, s))"

text \<open>
  The loop over the results of the successive waits. When the list is used up the function
  is still blocked in \<^verbatim>\<open>SDL_WaitEvent\<close> (\<open>Waiting\<close>), in the state reached so far.
\<close>

fun read_string_loop ::
  "nat \<Rightarrow> SDL_Event option list \<Rightarrow> read_string_state \<Rightarrow> read_string_outcome \<times> read_string_state" where
  "read_string_loop size' waits s =
     (if is_done s then (Returned CODE_OK, s)
      else case waits of
        [] \<Rightarrow> (Waiting, s\<lparr>should_rerender := False\<rparr>)
      | waited # waits' \<Rightarrow>
          (case read_string_event size' waited (s\<lparr>should_rerender := False\<rparr>) of
             (Waiting, s') \<Rightarrow> read_string_loop size' waits' s'
           | (outcome, s') \<Rightarrow> (outcome, s')))"

declare read_string_loop.simps [simp del]

definition read_string ::
  "string \<Rightarrow> nat \<Rightarrow> SDL_Event option list \<Rightarrow> read_string_outcome \<times> read_string_state" where
  "read_string buffer size' waits =
     (case strlen buffer of
        None \<Rightarrow> (Faulted, \<lparr>destination = buffer, written = 0, write_pointer = 0, is_done = False,
                    should_rerender = True\<rparr>)
      | Some n \<Rightarrow> read_string_loop size' waits
          \<lparr>destination = buffer, written = n, write_pointer = n, is_done = False,
             should_rerender = True\<rparr>)"

text \<open>
  What C9 says of the buffer at a point of the run: it lies within the buffer given, holds a
  NUL-terminated string of length \<^verbatim>\<open>written\<close>, and that length is below \<^verbatim>\<open>size\<close>.
\<close>

definition holds_string_below :: "nat \<Rightarrow> read_string_state \<Rightarrow> bool" where
  "holds_string_below size' s \<longleftrightarrow>
     strlen (destination s) = Some (written s) \<and> written s < size' \<and> write_pointer s = written s"

subsection \<open>The game and what it is drawn from\<close>

text \<open>
  \<^verbatim>\<open>Perk\<close> is the enumeration of \<^verbatim>\<open>perks.h\<close>. Of \<^verbatim>\<open>Player\<close>, \<^verbatim>\<open>Platform\<close> and
  \<^verbatim>\<open>BoundingBox\<close> the model has the fields that the sources read; the fields
  \<^verbatim>\<open>x\<close>, \<^verbatim>\<open>y\<close>, \<^verbatim>\<open>width\<close>, \<^verbatim>\<open>perk\<close>, \<^verbatim>\<open>lives\<close>, \<^verbatim>\<open>score\<close> carry the name of their
  structure in front. \<^verbatim>\<open>Game\<close> follows \<^verbatim>\<open>game.hpp\<close>; the array \<^verbatim>\<open>platforms\<close> with its
  \<^verbatim>\<open>platform_count\<close> is one list, and \<^verbatim>\<open>rigid_matrix\<close> is the list of its bytes.
  The \<^verbatim>\<open>int\<close> coordinates are unbounded integers.
\<close>

datatype Perk =
    PERK_POWER_INVINCIBILITY | PERK_POWER_LEVITATION | PERK_POWER_LOW_GRAVITY
  | PERK_POWER_SUPER_JUMP | PERK_POWER_TIME_STOP | PERK_BONUS_EXTRA_POINTS
  | PERK_BONUS_EXTRA_LIFE | PERK_COUNT | PERK_NONE

record Player =
  player_x :: int
  player_y :: int
  player_perk :: Perk
  player_lives :: int
  player_score :: int

record Platform =
  platform_x :: int
  platform_y :: int
  platform_width :: int

record BoundingBox =
  min_x :: int
  max_x :: int
  min_y :: int
  max_y :: int

record Game =
  player :: Player
  platforms :: "Platform list"
  current_frame :: U64
  desired_frame :: U64
  played_frames :: U64
  limit_played_frames :: U64
  paused :: bool
  tile_w :: int
  tile_h :: int
  perk :: Perk
  perk_x :: int
  perk_y :: int
  perk_end_frame :: nat
  box :: BoundingBox
  rigid_matrix_n :: nat
  rigid_matrix_m :: nat
  rigid_matrix_size :: nat
  rigid_matrix :: "8 word list"
  message :: string
  message_end_frame :: nat
  message_priority :: nat

subsection \<open>Drawing (\<^verbatim>\<open>walls-of-doom/io.c\<close>)\<close>

text \<open>
  A colour is its four channels. \<^verbatim>\<open>SDL_Rect\<close> and the requests made to the
  \<^verbatim>\<open>SDL_Renderer\<close> are data: the renderer is the list of the requests it has received.
  A texture is what it was made from; the cached texture of the borders is its size and
  the places where the glyph was copied into it.
\<close>

type_synonym Color = "8 word \<times> 8 word \<times> 8 word \<times> 8 word"

record ColorPair =
  foreground :: Color
  background :: Color

record SDL_Rect =
  rect_x :: int
  rect_y :: int
  rect_w :: int
  rect_h :: int

datatype Texture =
    Text_Texture string Color Color
  | Borders_Texture int int "(int \<times> int) list"

datatype RenderRequest =
    RenderClear
  | RenderPresent
  | RenderCopy Texture SDL_Rect
  | RenderFillRect SDL_Rect Color

type_synonym Milliseconds = int

text \<open>
  What \<^verbatim>\<open>io.c\<close> takes from the rest of the program and from SDL, as parameters: the
  settings (\<^verbatim>\<open>get_columns\<close>, \<^verbatim>\<open>get_lines\<close>), the colour pairs of \<^verbatim>\<open>color.h\<close>,
  \<^verbatim>\<open>get_perk_name\<close>, the size that \<^verbatim>\<open>SDL_QueryTexture\<close> reports for a rendered text,
  whether \<^verbatim>\<open>TTF_RenderText_Shaded\<close>, \<^verbatim>\<open>SDL_CreateTextureFromSurface\<close> and
  \<^verbatim>\<open>SDL_CreateTexture\<close> fail (return \<^verbatim>\<open>NULL\<close>), and the successive readings of
  \<^verbatim>\<open>get_milliseconds\<close>.
\<close>

record environment =
  get_columns :: int
  get_lines :: int
  COLOR_PAIR_DEFAULT :: ColorPair
  COLOR_PAIR_TOP_BAR :: ColorPair
  COLOR_PAIR_BOTTOM_BAR :: ColorPair
  COLOR_PAIR_PLATFORM :: ColorPair
  COLOR_PAIR_PERK :: ColorPair
  COLOR_PAIR_PLAYER :: ColorPair
  get_perk_name :: "Perk \<Rightarrow> string"
  query_text_width :: "string \<Rightarrow> int"
  query_text_height :: "string \<Rightarrow> int"
  render_text_fails :: "string \<Rightarrow> bool"
  create_texture_fails :: "string \<Rightarrow> bool"
  create_target_texture_fails :: bool
  clock_reading :: "nat \<Rightarrow> Milliseconds"

text \<open>
  The static variables of \<^verbatim>\<open>io.c\<close>, the renderer, the log, the profiler and the number
  of readings taken from the clock.
\<close>

record io_state =
  bar_height :: int
  window_width :: int
  window_height :: int
  global_monospaced_font_width :: int
  global_monospaced_font_height :: int
  borders_texture :: "Texture option"
  renderer :: "RenderRequest list"
  logged :: "string list"
  profiler :: "(string \<times> Milliseconds) list"
  clock_reads :: nat

text \<open>
  Division of \<^verbatim>\<open>int\<close> truncates towards zero, and a zero divisor traps: \<open>None\<close>.
\<close>

definition c_quotient :: "int \<Rightarrow> int \<Rightarrow> int" where
  "c_quotient a b = sgn a * sgn b * (\<bar>a\<bar> div \<bar>b\<bar>)"

definition c_div :: "int \<Rightarrow> int \<Rightarrow> int option" where
  "c_div a b = (if b = 0 then None else Some (c_quotient a b))"

definition log_message :: "string \<Rightarrow> io_state \<Rightarrow> io_state" where
  "log_message text' io = io\<lparr>logged := logged io @ [text']\<rparr>"

definition get_milliseconds :: "environment \<Rightarrow> io_state \<Rightarrow> Milliseconds \<times> io_state" where
  "get_milliseconds e io = (clock_reading e (clock_reads io), io\<lparr>clock_reads := Suc (clock_reads io)\<rparr>)"

definition update_profiler :: "string \<Rightarrow> Milliseconds \<Rightarrow> io_state \<Rightarrow> io_state" where
  "update_profiler name' delta io = io\<lparr>profiler := profiler io @ [(name', delta)]\<rparr>"

definition render :: "RenderRequest \<Rightarrow> io_state \<Rightarrow> io_state" where
  "render request io = io\<lparr>renderer := renderer io @ [request]\<rparr>"

text \<open>\<^verbatim>\<open>SDL_QueryTexture\<close>: the width and the height of a texture.\<close>

definition query_texture :: "environment \<Rightarrow> Texture \<Rightarrow> int \<times> int" where
  "query_texture e texture =
     (case texture of
        Text_Texture s fg bg \<Rightarrow> (query_text_width e s, query_text_height e s)
      | Borders_Texture w h places \<Rightarrow> (w, h))"

definition render_copy :: "environment \<Rightarrow> Texture \<Rightarrow> int \<Rightarrow> int \<Rightarrow> io_state \<Rightarrow> io_state" where
  "render_copy e texture x y io =
     render (RenderCopy texture
       \<lparr>rect_x = x, rect_y = y, rect_w = fst (query_texture e texture),
          rect_h = snd (query_texture e texture)\<rparr>) io"

definition clear :: "io_state \<Rightarrow> io_state" where
  "clear io = render RenderClear io"

definition present :: "io_state \<Rightarrow> io_state" where
  "present io = render RenderPresent io"

definition get_window_width :: "io_state \<Rightarrow> int" where
  "get_window_width io = window_width io"

definition get_window_height :: "io_state \<Rightarrow> int" where
  "get_window_height io = window_height io"

definition get_bar_height :: "io_state \<Rightarrow> int" where
  "get_bar_height io = bar_height io"

definition get_tile_width :: "environment \<Rightarrow> io_state \<Rightarrow> int option" where
  "get_tile_width e io = c_div (get_window_width io) (get_columns e)"

definition get_tile_height :: "environment \<Rightarrow> io_state \<Rightarrow> int option" where
  "get_tile_height e io = c_div (get_window_height io - get_bar_height io) (get_lines e)"

text \<open>
  \<^verbatim>\<open>print_absolute\<close>. The string is \<open>None\<close> for the \<^verbatim>\<open>NULL\<close> pointer, and a C string
  is the list of its characters before the NUL, so \<^verbatim>\<open>string[0] == '\0'\<close> is \<open>s = []\<close>.
\<close>

definition print_absolute ::
  "environment \<Rightarrow> int \<Rightarrow> int \<Rightarrow> string option \<Rightarrow> ColorPair \<Rightarrow> io_state \<Rightarrow> Code \<times> io_state" where
  "print_absolute e x y string color_pair io =
     (case string of
        None \<Rightarrow> (CODE_OK, io)
      | Some s \<Rightarrow>
          if s = [] then (CODE_OK, io)
          else if x < 0 \<or> y < 0 then (CODE_ERROR, io)
          else if render_text_fails e s then
            (CODE_ERROR, log_message ''Failed to allocate text surface in print()'' io)
          else if create_texture_fails e s then
            (CODE_ERROR, log_message ''Failed to create texture from surface in print()'' io)
          else
            (CODE_OK,
             render_copy e (Text_Texture s (foreground color_pair) (background color_pair))
               x y io))"

text \<open>
  The two loops of \<^verbatim>\<open>cache_borders_texture\<close>, from the current value of the loop
  variable. Each yields the places where the glyph is copied. A loop whose step is not
  positive while its condition holds never ends: \<open>None\<close>.
\<close>

function top_and_bottom_borders :: "int \<Rightarrow> int \<Rightarrow> int \<Rightarrow> int \<Rightarrow> int \<Rightarrow> (int \<times> int) list option" where
  "top_and_bottom_borders x full_width x_step full_height y_step =
     (if x < full_width then
        (if x_step \<le> 0 then None
         else map_option (\<lambda>places. (x, 0) # (x, full_height - y_step) # places)
                (top_and_bottom_borders (x + x_step) full_width x_step full_height y_step))
      else Some [])"
  by pat_completeness auto
termination
  by (relation "measure (\<lambda>(x, full_width, x_step, full_height, y_step). nat (full_width - x))") auto

function left_and_right_borders :: "int \<Rightarrow> int \<Rightarrow> int \<Rightarrow> int \<Rightarrow> int \<Rightarrow> (int \<times> int) list option" where
  "left_and_right_borders y full_height y_step full_width x_step =
     (if y < full_height then
        (if y_step \<le> 0 then None
         else map_option (\<lambda>places. (0, y) # (full_width - x_step, y) # places)
                (left_and_right_borders (y + y_step) full_height y_step full_width x_step))
      else Some [])"
  by pat_completeness auto
termination
  by (relation "measure (\<lambda>(y, full_height, y_step, full_width, x_step). nat (full_height - y))") auto

declare top_and_bottom_borders.simps [simp del]
declare left_and_right_borders.simps [simp del]

text \<open>
  \<^verbatim>\<open>cache_borders_texture\<close>. The glyph texture is taken to be created; the result of the
  copies is the texture stored in \<^verbatim>\<open>borders_texture\<close>.
\<close>

definition cache_borders_texture ::
  "environment \<Rightarrow> BoundingBox \<Rightarrow> io_state \<Rightarrow> (Code \<times> io_state) option" where
  "cache_borders_texture e borders io =
     do {
       x_step \<leftarrow> get_tile_width e io;
       y_step \<leftarrow> get_tile_height e io;
       let full_width = (max_x borders - min_x borders + 1) * x_step;
           full_height = (max_y borders - min_y borders + 1) * y_step
       in if borders_texture io \<noteq> None then Some (CODE_ERROR, io)
          else if min_x borders < 0 \<or> min_y borders < 0 \<or> min_x borders > max_x borders
                  \<or> min_y borders > max_y borders then
            Some (CODE_ERROR, log_message ''Got invalid border limits'' io)
          else if create_target_texture_fails e then
            Some (CODE_ERROR, log_message ''Failed to create cached borders texture'' io)
          else
            do {
              horizontal \<leftarrow> top_and_bottom_borders 0 full_width x_step full_height y_step;
              vertical \<leftarrow> left_and_right_borders 0 full_height y_step full_width x_step;
              Some (CODE_OK,
                io\<lparr>borders_texture :=
                     Some (Borders_Texture full_width full_height (horizontal @ vertical))\<rparr>)
            }
     }"

definition render_borders ::
  "environment \<Rightarrow> BoundingBox \<Rightarrow> io_state \<Rightarrow> (Code \<times> io_state) option" where
  "render_borders e borders io =
     do {
       x_step \<leftarrow> get_tile_width e io;
       y_step \<leftarrow> get_tile_height e io;
       io' \<leftarrow> (if borders_texture io = None
               then map_option snd (cache_borders_texture e borders io) else Some io);
       (case borders_texture io' of
          None \<Rightarrow> Some (CODE_ERROR, io')
        | Some texture \<Rightarrow>
            Some (CODE_OK,
              render_copy e texture (min_x borders * x_step)
                (bar_height io' + min_y borders * y_step) io'))
     }"

definition print_centered ::
  "environment \<Rightarrow> int \<Rightarrow> string \<Rightarrow> ColorPair \<Rightarrow> io_state \<Rightarrow> (Code \<times> io_state) option" where
  "print_centered e y string color_pair io =
     do {
       tile_height \<leftarrow> get_tile_height e io;
       Some
         (if y < 0 then (CODE_ERROR, io)
          else if render_text_fails e string then
            (CODE_ERROR, log_message ''Failed to allocate text surface in print()'' io)
          else if create_texture_fails e string then
            (CODE_ERROR, log_message ''Failed to create texture from surface in print()'' io)
          else
            (let texture = Text_Texture string (foreground color_pair) (background color_pair)
             in (CODE_OK,
                 render_copy e texture
                   (c_quotient (get_window_width io - fst (query_texture e texture)) 2)
                   (tile_height * y) io)))
     }"

text \<open>
  The loop of \<^verbatim>\<open>print_centered_horizontally\<close>, from index \<open>i\<close>. Reading
  \<^verbatim>\<open>strings[i]\<close> beyond the strings given is the fault \<open>None\<close>.
\<close>

function print_strings_in_slices ::
  "environment \<Rightarrow> int \<Rightarrow> int \<Rightarrow> int \<Rightarrow> int \<Rightarrow> string list \<Rightarrow> ColorPair \<Rightarrow> io_state
     \<Rightarrow> (Code \<times> io_state) option" where
  "print_strings_in_slices e i string_count slice_size y strings color_pair io =
     (if i < string_count then
        (if i < 0 \<or> nat i \<ge> length strings then None
         else
           (let string = strings ! nat i
            in if render_text_fails e string then
                 Some (CODE_ERROR, log_message ''Failed to allocate text surface in print()'' io)
               else if create_texture_fails e string then
                 Some (CODE_ERROR,
                   log_message ''Failed to create texture from surface in print()'' io)
               else
                 (let texture =
                        Text_Texture string (foreground color_pair) (background color_pair)
                  in print_strings_in_slices e (i + 1) string_count slice_size y strings
                       color_pair
                       (render_copy e texture
                          (i * slice_size
                           + c_quotient (slice_size - fst (query_texture e texture)) 2)
                          y io))))
      else Some (CODE_OK, io))"
  by pat_completeness auto
termination
  by (relation "measure (\<lambda>(e, i, string_count, slice_size, y, strings, color_pair, io).
        nat (string_count - i))") auto

declare print_strings_in_slices.simps [simp del]

definition print_centered_horizontally ::
  "environment \<Rightarrow> int \<Rightarrow> int \<Rightarrow> string list \<Rightarrow> ColorPair \<Rightarrow> io_state
     \<Rightarrow> (Code \<times> io_state) option" where
  "print_centered_horizontally e y string_count strings color_pair io =
     do {
       slice_size \<leftarrow> c_div (get_window_width io) string_count;
       if y < 0 then Some (CODE_ERROR, io)
       else print_strings_in_slices e 0 string_count slice_size y strings color_pair io
     }"

definition draw_absolute_rectangle ::
  "int \<Rightarrow> int \<Rightarrow> int \<Rightarrow> int \<Rightarrow> Color \<Rightarrow> io_state \<Rightarrow> io_state" where
  "draw_absolute_rectangle x y w h color io =
     render (RenderFillRect \<lparr>rect_x = x, rect_y = y, rect_w = w, rect_h = h\<rparr> color) io"

definition draw_rectangle ::
  "environment \<Rightarrow> int \<Rightarrow> int \<Rightarrow> int \<Rightarrow> int \<Rightarrow> Color \<Rightarrow> io_state \<Rightarrow> io_state option" where
  "draw_rectangle e x y w h color io =
     do {
       tile_width \<leftarrow> get_tile_width e io;
       tile_height \<leftarrow> get_tile_height e io;
       Some (draw_absolute_rectangle (x * tile_width) (get_bar_height io + y * tile_height)
         (w * tile_width) (h * tile_height) color io)
     }"

text \<open>\<^verbatim>\<open>sprintf\<close> with \<^verbatim>\<open>%d\<close>: the decimal digits of an integer.\<close>

fun decimal_digits :: "nat \<Rightarrow> string" where
  "decimal_digits n =
     (if n < 10 then [char_of (48 + n)]
      else decimal_digits (n div 10) @ [char_of (48 + n mod 10)])"

declare decimal_digits.simps [simp del]

definition format_d :: "int \<Rightarrow> string" where
  "format_d i = (if i < 0 then CHR ''-'' # decimal_digits (nat (- i)) else decimal_digits (nat i))"

definition GAME_NAME :: string where
  "GAME_NAME = ''Walls of Doom''"

text \<open>
  \<^verbatim>\<open>TOP_BAR_STRING_COUNT\<close> is the number of strings that \<^verbatim>\<open>draw_top_bar\<close> fills in.
\<close>

definition TOP_BAR_STRING_COUNT :: int where
  "TOP_BAR_STRING_COUNT = 4"

definition write_top_bar_strings :: "environment \<Rightarrow> string list \<Rightarrow> io_state \<Rightarrow> io_state option" where
  "write_top_bar_strings e strings io =
     (let color_pair = COLOR_PAIR_TOP_BAR e;
          string_count = TOP_BAR_STRING_COUNT;
          y = c_quotient (get_bar_height io - global_monospaced_font_height io) 2;
          h = get_bar_height io;
          w = get_window_width io
      in map_option snd
           (print_centered_horizontally e y string_count strings color_pair
              (draw_absolute_rectangle 0 0 w h (background color_pair) io)))"

definition draw_top_bar :: "environment \<Rightarrow> Player \<Rightarrow> io_state \<Rightarrow> (int \<times> io_state) option" where
  "draw_top_bar e p io =
     (let perk_name = (if player_perk p \<noteq> PERK_NONE then get_perk_name e (player_perk p)
                       else ''No Power'');
          lives_buffer = ''Lives: '' @ format_d (player_lives p);
          score_buffer = ''Score: '' @ format_d (player_score p);
          strings = [GAME_NAME, perk_name, lives_buffer, score_buffer]
      in map_option (Pair 0) (write_top_bar_strings e strings io))"

definition write_bottom_bar_string :: "environment \<Rightarrow> string \<Rightarrow> io_state \<Rightarrow> io_state" where
  "write_bottom_bar_string e string io =
     (let x = c_quotient (global_monospaced_font_width io) 2;
          bar_start = get_window_height io - get_bar_height io;
          padding = c_quotient (get_bar_height io - global_monospaced_font_height io) 2;
          y = bar_start + padding
      in snd (print_absolute e x y (Some string) (COLOR_PAIR_BOTTOM_BAR e) io))"

definition draw_bottom_bar :: "environment \<Rightarrow> string \<Rightarrow> io_state \<Rightarrow> io_state" where
  "draw_bottom_bar e message' io =
     (let color = background (COLOR_PAIR_BOTTOM_BAR e);
          y = get_window_height io - bar_height io;
          w = get_window_width io;
          h = get_bar_height io
      in write_bottom_bar_string e message' (draw_absolute_rectangle 0 y w h color io))"

definition draw_borders :: "environment \<Rightarrow> io_state \<Rightarrow> io_state option" where
  "draw_borders e io =
     map_option snd
       (render_borders e
          \<lparr>min_x = 0, max_x = get_columns e - 1, min_y = 0, max_y = get_lines e - 1\<rparr> io)"

fun draw_platforms ::
  "environment \<Rightarrow> Platform list \<Rightarrow> BoundingBox \<Rightarrow> io_state \<Rightarrow> (int \<times> io_state) option" where
  "draw_platforms e [] bounds io = Some (0, io)"
| "draw_platforms e (p # ps) bounds io =
     (let x = max (min_x bounds) (platform_x p);
          y = platform_y p;
          w = min (max_x bounds) (platform_x p + platform_width p - 1) - x + 1
      in case draw_rectangle e x y w 1 (foreground (COLOR_PAIR_PLATFORM e)) io of
           None \<Rightarrow> None
         | Some io' \<Rightarrow> draw_platforms e ps bounds io')"

definition has_active_perk :: "Game \<Rightarrow> bool" where
  "has_active_perk g \<longleftrightarrow> perk g \<noteq> PERK_NONE"

definition draw_perk :: "environment \<Rightarrow> Game \<Rightarrow> io_state \<Rightarrow> (int \<times> io_state) option" where
  "draw_perk e g io =
     (let color = background (COLOR_PAIR_PERK e)
      in if has_active_perk g
         then map_option (Pair 0) (draw_rectangle e (perk_x g) (perk_y g) 1 1 color io)
         else Some (0, io))"

definition draw_player :: "environment \<Rightarrow> Player \<Rightarrow> io_state \<Rightarrow> (Code \<times> io_state) option" where
  "draw_player e p io =
     map_option (Pair CODE_OK)
       (draw_rectangle e (player_x p) (player_y p) 1 1 (foreground (COLOR_PAIR_PLAYER e)) io)"

text \<open>
  \<^verbatim>\<open>draw_game\<close> runs on the whole program state, the game and the state of \<^verbatim>\<open>io.c\<close>, so
  that what it leaves of the game is a statement and not a matter of types. Each of its
  eight steps is bracketed in the same way: \<^verbatim>\<open>start = get_milliseconds()\<close>, the call,
  \<^verbatim>\<open>update_profiler(name, get_milliseconds() - start)\<close>; \<open>profiled\<close> is that bracket.
\<close>

record world =
  the_game :: Game
  the_io :: io_state

definition profiled ::
  "environment \<Rightarrow> string \<Rightarrow> (io_state \<Rightarrow> io_state option) \<Rightarrow> world \<Rightarrow> world option" where
  "profiled e name' call w =
     (let (start, io1) = get_milliseconds e (the_io w)
      in case call io1 of
           None \<Rightarrow> None
         | Some io2 \<Rightarrow>
             (let (now, io3) = get_milliseconds e io2
              in Some (w\<lparr>the_io := update_profiler name' (now - start) io3\<rparr>)))"

definition draw_game :: "environment \<Rightarrow> world \<Rightarrow> (Milliseconds \<times> world) option" where
  "draw_game e w0 =
     (let (draw_game_start, io0) = get_milliseconds e (the_io w0)
      in do {
        w1 \<leftarrow> profiled e ''draw_game:clear'' (\<lambda>io. Some (clear io)) (w0\<lparr>the_io := io0\<rparr>);
        w2 \<leftarrow> profiled e ''draw_game:draw_top_bar''
                (\<lambda>io. map_option snd (draw_top_bar e (player (the_game w1)) io)) w1;
        w3 \<leftarrow> profiled e ''draw_game:draw_bottom_bar''
                (\<lambda>io. Some (draw_bottom_bar e (message (the_game w2)) io)) w2;
        w4 \<leftarrow> profiled e ''draw_game:draw_borders'' (draw_borders e) w3;
        w5 \<leftarrow> profiled e ''draw_game:draw_platforms''
                (\<lambda>io. map_option snd
                   (draw_platforms e (platforms (the_game w4)) (box (the_game w4)) io)) w4;
        w6 \<leftarrow> profiled e ''draw_game:draw_perk''
                (\<lambda>io. map_option snd (draw_perk e (the_game w5) io)) w5;
        w7 \<leftarrow> profiled e ''draw_game:draw_player''
                (\<lambda>io. map_option snd (draw_player e (player (the_game w6)) io)) w6;
        w8 \<leftarrow> profiled e ''draw_game:present'' (\<lambda>io. Some (present io)) w7;
        (let (now, io9) = get_milliseconds e (the_io w8);
             io10 = update_profiler ''draw_game'' (now - draw_game_start) io9;
             (end', io11) = get_milliseconds e io10
         in Some (end' - draw_game_start, w8\<lparr>the_io := io11\<rparr>))
      })"

text \<open>A concrete environment and a concrete state of \<^verbatim>\<open>io.c\<close>, for evaluating the drawing code.\<close>

definition sample_color_pair :: ColorPair where
  "sample_color_pair = \<lparr>foreground = (255, 255, 255, 255), background = (0, 0, 0, 255)\<rparr>"

definition sample_environment :: environment where
  "sample_environment =
     \<lparr>get_columns = 80, get_lines = 30,
      COLOR_PAIR_DEFAULT = sample_color_pair, COLOR_PAIR_TOP_BAR = sample_color_pair,
      COLOR_PAIR_BOTTOM_BAR = sample_color_pair, COLOR_PAIR_PLATFORM = sample_color_pair,
      COLOR_PAIR_PERK = sample_color_pair, COLOR_PAIR_PLAYER = sample_color_pair,
      get_perk_name = (\<lambda>p. ''Perk''),
      query_text_width = (\<lambda>s. 10 * int (length s)), query_text_height = (\<lambda>s. 20),
      render_text_fails = (\<lambda>s. False), create_texture_fails = (\<lambda>s. False),
      create_target_texture_fails = False,
      clock_reading = (\<lambda>k. 1000 + 3 * int k)\<rparr>"

definition sample_io_state :: io_state where
  "sample_io_state =
     \<lparr>bar_height = 20, window_width = 800, window_height = 640,
      global_monospaced_font_width = 10, global_monospaced_font_height = 20,
      borders_texture = None, renderer = [], logged = [], profiler = [], clock_reads = 0\<rparr>"

definition sample_world :: world where
  "sample_world =
     \<lparr>the_game =
        \<lparr>player = \<lparr>player_x = 4, player_y = 9, player_perk = PERK_NONE, player_lives = 3,
                    player_score = 120\<rparr>,
         platforms = [\<lparr>platform_x = 5, platform_y = 10, platform_width = 4\<rparr>],
         current_frame = 7, desired_frame = 7, played_frames = 5, limit_played_frames = 1000,
         paused = False, tile_w = 10, tile_h = 20,
         perk = PERK_POWER_LEVITATION, perk_x = 12, perk_y = 3, perk_end_frame = 600,
         box = \<lparr>min_x = 1, max_x = 78, min_y = 1, max_y = 28\<rparr>,
         rigid_matrix_n = 0, rigid_matrix_m = 0, rigid_matrix_size = 0, rigid_matrix = [],
         message = ''Go'', message_end_frame = 60, message_priority = 1\<rparr>,
      the_io = sample_io_state\<rparr>"

subsection \<open>The rigid matrix (\<^verbatim>\<open>game.cpp\<close>, declared in \<^verbatim>\<open>game.hpp\<close>)\<close>

text \<open>
  \<^verbatim>\<open>game.hpp\<close> declares \<^verbatim>\<open>get_from_rigid_matrix\<close>, \<^verbatim>\<open>modify_rigid_matrix_point\<close> and
  \<^verbatim>\<open>modify_rigid_matrix_platform\<close>, with counters and deltas of type \<^verbatim>\<open>unsigned char\<close>;
  their bodies are not among the sources. The three definitions below are written from the
  specification, on the types of the header: the counters are bytes, \<open>+\<close> wraps, and the
  delta \<open>-1\<close> of a retraction is the byte 255.
\<close>

definition in_box :: "BoundingBox \<Rightarrow> int \<Rightarrow> int \<Rightarrow> bool" where
  "in_box bounds x y \<longleftrightarrow>
     min_x bounds \<le> x \<and> x \<le> max_x bounds \<and> min_y bounds \<le> y \<and> y \<le> max_y bounds"

text \<open>
  Modelled from the spec: the offset of a cell in the flat array, which the specification
  calls hand-computed and does not give. The matrix has \<^verbatim>\<open>rigid_matrix_n\<close> rows of
  \<^verbatim>\<open>rigid_matrix_m\<close> cells, one row for each line of the bounding box.
\<close>

definition rigid_matrix_offset :: "Game \<Rightarrow> int \<Rightarrow> int \<Rightarrow> nat" where
  "rigid_matrix_offset g x y =
     nat (y - min_y (box g)) * rigid_matrix_m g + nat (x - min_x (box g))"

text \<open>
  Modelled from the spec: \<^verbatim>\<open>get_from_rigid_matrix\<close>, missing from the sources, ``returns
  occupancy count at a cell, fails/clamps for out-of-bounds queries''; outside the
  bounding box the model answers 0.
\<close>

definition get_from_rigid_matrix :: "Game \<Rightarrow> int \<Rightarrow> int \<Rightarrow> 8 word" where
  "get_from_rigid_matrix g x y =
     (if in_box (box g) x y then rigid_matrix g ! rigid_matrix_offset g x y else 0)"

text \<open>
  Modelled from the spec: \<^verbatim>\<open>modify_rigid_matrix_point\<close>, missing from the sources, ``adds
  delta (\<open>\<plusminus>1\<close>) to a cell's counter''; a cell outside the bounding box has no counter.
\<close>

definition modify_rigid_matrix_point :: "Game \<Rightarrow> int \<Rightarrow> int \<Rightarrow> 8 word \<Rightarrow> Game" where
  "modify_rigid_matrix_point g x y delta =
     (if in_box (box g) x y
      then g\<lparr>rigid_matrix := (rigid_matrix g)[rigid_matrix_offset g x y :=
                rigid_matrix g ! rigid_matrix_offset g x y + delta]\<rparr>
      else g)"

text \<open>
  Modelled from the spec: \<^verbatim>\<open>modify_rigid_matrix_platform\<close>, missing from the sources,
  ``applies delta to every cell the platform's rectangle covers, clipped to the bounding
  box''. A platform is one cell high (\<^verbatim>\<open>draw_platforms\<close> draws it so) and covers the cells
  \<open>platform_x, \<dots>, platform_x + platform_width - 1\<close> of line \<open>platform_y\<close>.
\<close>

definition modify_rigid_matrix_platform :: "Game \<Rightarrow> Platform \<Rightarrow> 8 word \<Rightarrow> Game" where
  "modify_rigid_matrix_platform g p delta =
     fold (\<lambda>i g'. modify_rigid_matrix_point g' (platform_x p + int i) (platform_y p) delta)
       [0..<nat (platform_width p)] g"

definition covers :: "Platform \<Rightarrow> int \<Rightarrow> int \<Rightarrow> bool" where
  "covers p x y \<longleftrightarrow>
     y = platform_y p \<and> platform_x p \<le> x \<and> x < platform_x p + platform_width p"

text \<open>
  Modelled from the spec: the life of the platforms, as far as the specification gives it.
  A game is created with no platform and a matrix of zeros that has one counter for each
  cell of its bounding box. A platform is spawned into the sequence if the sequence, of a
  fixed capacity, is not full, and its cells are counted (\<open>+1\<close>); a platform that moves is
  retracted (\<open>-1\<close>), put at its new column and counted again; a platform that is despawned
  is retracted and taken out of the sequence, which stays dense.
\<close>

definition freshly_created :: "Game \<Rightarrow> bool" where
  "freshly_created g \<longleftrightarrow>
     platforms g = []
     \<and> rigid_matrix_n g = nat (max_y (box g) - min_y (box g) + 1)
     \<and> rigid_matrix_m g = nat (max_x (box g) - min_x (box g) + 1)
     \<and> rigid_matrix_size g = rigid_matrix_n g * rigid_matrix_m g
     \<and> rigid_matrix g = replicate (rigid_matrix_size g) 0"

datatype platform_event = Spawn Platform | Move nat int | Despawn nat

definition spawn_platform :: "nat \<Rightarrow> Platform \<Rightarrow> Game \<Rightarrow> Game" where
  "spawn_platform capacity p g =
     (if length (platforms g) < capacity
      then modify_rigid_matrix_platform (g\<lparr>platforms := platforms g @ [p]\<rparr>) p 1
      else g)"

definition move_platform :: "nat \<Rightarrow> int \<Rightarrow> Game \<Rightarrow> Game" where
  "move_platform i new_x g =
     (if i < length (platforms g)
      then
        (let old = platforms g ! i;
             new = old\<lparr>platform_x := new_x\<rparr>;
             g' = modify_rigid_matrix_platform g old (- 1)
         in modify_rigid_matrix_platform (g'\<lparr>platforms := (platforms g')[i := new]\<rparr>) new 1)
      else g)"

definition despawn_platform :: "nat \<Rightarrow> Game \<Rightarrow> Game" where
  "despawn_platform i g =
     (if i < length (platforms g)
      then
        (let g' = modify_rigid_matrix_platform g (platforms g ! i) (- 1)
         in g'\<lparr>platforms := take i (platforms g') @ drop (Suc i) (platforms g')\<rparr>)
      else g)"

fun apply_platform_event :: "nat \<Rightarrow> platform_event \<Rightarrow> Game \<Rightarrow> Game" where
  "apply_platform_event capacity (Spawn p) g = spawn_platform capacity p g"
| "apply_platform_event capacity (Move i new_x) g = move_platform i new_x g"
| "apply_platform_event capacity (Despawn i) g = despawn_platform i g"

definition apply_platform_events :: "nat \<Rightarrow> platform_event list \<Rightarrow> Game \<Rightarrow> Game" where
  "apply_platform_events capacity events g = fold (apply_platform_event capacity) events g"

definition covering_platforms :: "Game \<Rightarrow> int \<Rightarrow> int \<Rightarrow> nat" where
  "covering_platforms g x y = length (filter (\<lambda>p. covers p x y) (platforms g))"

text \<open>
  The shape of the matrix: it has one counter for each cell of the bounding box.
\<close>

definition matrix_fits_box :: "Game \<Rightarrow> bool" where
  "matrix_fits_box g \<longleftrightarrow>
     rigid_matrix_n g = nat (max_y (box g) - min_y (box g) + 1)
     \<and> rigid_matrix_m g = nat (max_x (box g) - min_x (box g) + 1)
     \<and> length (rigid_matrix g) = rigid_matrix_n g * rigid_matrix_m g"

definition counts_platforms :: "Game \<Rightarrow> bool" where
  "counts_platforms g \<longleftrightarrow>
     matrix_fits_box g
     \<and> (\<forall>x y. in_box (box g) x y \<longrightarrow>
            get_from_rigid_matrix g x y = of_nat (covering_platforms g x y))"

definition sample_game :: Game where
  "sample_game =
     \<lparr>player = \<lparr>player_x = 0, player_y = 1, player_perk = PERK_NONE, player_lives = 3,
                 player_score = 0\<rparr>,
      platforms = [],
      current_frame = 0, desired_frame = 0, played_frames = 0, limit_played_frames = 1000,
      paused = False, tile_w = 10, tile_h = 20,
      perk = PERK_NONE, perk_x = 0, perk_y = 0, perk_end_frame = 0,
      box = \<lparr>min_x = 0, max_x = 3, min_y = 0, max_y = 1\<rparr>,
      rigid_matrix_n = 2, rigid_matrix_m = 4, rigid_matrix_size = 8,
      rigid_matrix = [0, 0, 0, 0, 0, 0, 0, 0],
      message = [], message_end_frame = 0, message_priority = 0\<rparr>"

text \<open>
  For the termination of the sampling loop: the state that a call of \<^verbatim>\<open>xorshift128\<close>
  leaves, and the bitwise exclusive or of two states. The generator is linear for it.
\<close>

definition next_state :: "generator \<Rightarrow> generator" where
  "next_state g = snd (xorshift128 g)"

definition xor_states :: "generator \<Rightarrow> generator \<Rightarrow> generator" where
  "xor_states a b =
     \<lparr>var_x = var_x a XOR var_x b, var_y = var_y a XOR var_y b,
      var_z = var_z a XOR var_z b, var_w = var_w a XOR var_w b\<rparr>"

(*DEFS_END*)

section \<open>Properties\<close>

subsection \<open>The next power of two\<close>

lemma fnp2_loop_push_bit: "fnp2_loop number result = push_bit (bit_length (unat number)) result"
proof (induction number result rule: fnp2_loop.induct)
  case (1 number result)
  show ?case
  proof (cases "number = 0")
    case True
    then show ?thesis by (simp add: bit_length.simps)
  next
    case False
    then have nz: "unat number \<noteq> 0" by (simp add: unat_eq_0)
    have "fnp2_loop number result = fnp2_loop (drop_bit 1 number) (push_bit 1 result)"
      using False by simp
    also have "\<dots> = push_bit (bit_length (unat (drop_bit 1 number))) (push_bit 1 result)"
      using 1 False by simp
    also have "\<dots> = push_bit (bit_length (unat number)) result"
      using nz by (simp add: drop_bit_eq_div unat_div bit_length.simps [of "unat number"])
    finally show ?thesis .
  qed
qed

lemma bit_length_upper: "n < 2 ^ bit_length n"
proof (induction n rule: bit_length.induct)
  case (1 n)
  show ?case
  proof (cases "n = 0")
    case True
    then show ?thesis by (simp add: bit_length.simps)
  next
    case False
    with 1 have "n div 2 < 2 ^ bit_length (n div 2)" by simp
    then have "n < 2 * 2 ^ bit_length (n div 2)" by linarith
    with False show ?thesis by (simp add: bit_length.simps [of n])
  qed
qed

lemma bit_length_lower: "n \<noteq> 0 \<Longrightarrow> 2 ^ (bit_length n - 1) \<le> n"
proof (induction n rule: bit_length.induct)
  case (1 n)
  show ?case
  proof (cases "n div 2 = 0")
    case True
    with 1(2) have "n = 1" by linarith
    then show ?thesis by (simp add: bit_length.simps)
  next
    case False
    with 1 have "2 ^ (bit_length (n div 2) - 1) \<le> n div 2" by simp
    then have "2 * 2 ^ (bit_length (n div 2) - 1) \<le> n" by linarith
    moreover have "bit_length (n div 2) \<noteq> 0" using False by (simp add: bit_length.simps [of "n div 2"])
    ultimately have "2 ^ bit_length (n div 2) \<le> n"
      by (cases "bit_length (n div 2)") simp_all
    with 1(2) show ?thesis by (simp add: bit_length.simps [of n])
  qed
qed

lemma bit_length_le: "n < 2 ^ k \<Longrightarrow> bit_length n \<le> k"
proof (induction n arbitrary: k rule: bit_length.induct)
  case (1 n)
  show ?case
  proof (cases "n = 0")
    case True
    then show ?thesis by (simp add: bit_length.simps)
  next
    case False
    with 1(2) obtain j where k: "k = Suc j" by (cases k) auto
    with 1(2) have "n div 2 < 2 ^ j" by simp
    with 1(1) False have "bit_length (n div 2) \<le> j" by simp
    with False k show ?thesis by (simp add: bit_length.simps [of n])
  qed
qed

lemma unat_find_next_power_of_two:
  assumes "unat n < 2 ^ 63"
  shows "unat (find_next_power_of_two n) = 2 ^ bit_length (unat n)"
proof -
  define k where "k = bit_length (unat n)"
  have "k \<le> 63" unfolding k_def using assms by (rule bit_length_le)
  then have k: "k < 64" by simp
  have "find_next_power_of_two n = push_bit k 1"
    unfolding k_def by (simp only: find_next_power_of_two_def fnp2_loop_push_bit)
  then have "unat (find_next_power_of_two n) = unat (push_bit k (1 :: U64))"
    by (rule arg_cong)
  also have "\<dots> = unat (of_nat (2 ^ k) :: U64)"
    by simp
  also have "\<dots> = 2 ^ k mod 2 ^ 64"
    by (simp only: unat_of_nat) simp
  also have "\<dots> = 2 ^ k"
  proof -
    have "(2 :: nat) ^ k < 2 ^ 64"
      using k by (intro power_strict_increasing) simp_all
    then show ?thesis by (rule mod_less)
  qed
  finally show ?thesis unfolding k_def .
qed

text \<open>
  The function written from the specification's words does compute the smallest power of
  two that is at least its argument.
\<close>

lemma smallest_power_of_two_at_least_spec:
  "(\<exists>k. smallest_power_of_two_at_least n = 2 ^ k) \<and> n \<le> smallest_power_of_two_at_least n
     \<and> (\<forall>k. n \<le> 2 ^ k \<longrightarrow> smallest_power_of_two_at_least n \<le> 2 ^ k)"
proof (induction n rule: smallest_power_of_two_at_least.induct)
  case (1 n)
  show ?case
  proof (cases "n \<le> 1")
    case True
    then have one: "smallest_power_of_two_at_least n = 1"
      by (simp add: smallest_power_of_two_at_least.simps [of n])
    have "smallest_power_of_two_at_least n = 2 ^ 0"
      using one by simp
    then have a: "\<exists>k. smallest_power_of_two_at_least n = 2 ^ k" ..
    have b: "n \<le> smallest_power_of_two_at_least n"
      using one True by simp
    have c: "\<forall>k. n \<le> 2 ^ k \<longrightarrow> smallest_power_of_two_at_least n \<le> 2 ^ k"
      using one by simp
    from a b c show ?thesis by (intro conjI)
  next
    case False
    let ?h = "(n + 1) div 2"
    let ?r = "smallest_power_of_two_at_least ?h"
    have ih: "(\<exists>k. ?r = 2 ^ k) \<and> ?h \<le> ?r \<and> (\<forall>k. ?h \<le> 2 ^ k \<longrightarrow> ?r \<le> 2 ^ k)"
      using 1 False by simp
    from ih obtain j where j: "?r = 2 ^ j" by (elim conjE exE)
    from ih have ge: "?h \<le> ?r" by (elim conjE)
    from ih have least: "\<forall>k. ?h \<le> 2 ^ k \<longrightarrow> ?r \<le> 2 ^ k" by (elim conjE)
    have eq: "smallest_power_of_two_at_least n = 2 * ?r"
      using False by (simp add: smallest_power_of_two_at_least.simps [of n])
    have "smallest_power_of_two_at_least n = 2 ^ Suc j"
      using eq j by simp
    then have a: "\<exists>k. smallest_power_of_two_at_least n = 2 ^ k" ..
    have b: "n \<le> smallest_power_of_two_at_least n"
      using eq ge by linarith
    have c: "\<forall>k. n \<le> 2 ^ k \<longrightarrow> smallest_power_of_two_at_least n \<le> 2 ^ k"
    proof (intro allI impI)
      fix k
      assume nk: "n \<le> 2 ^ k"
      show "smallest_power_of_two_at_least n \<le> 2 ^ k"
      proof (cases k)
        case 0
        with nk False show ?thesis by simp
      next
        case (Suc i)
        with nk have "?h \<le> 2 ^ i" by simp
        with least have "?r \<le> 2 ^ i" by (elim allE [of _ i] impE)
        with eq Suc show ?thesis by simp
      qed
    qed
    from a b c show ?thesis by (intro conjI)
  qed
qed

text \<open>
  C3, as stated, fails: the claim reads \<^verbatim>\<open>find_next_power_of_two(n)\<close> as the smallest
  power of two that is at least \<open>n\<close>. For \<open>n = 1\<close> that is \<open>1\<close>, and the code returns \<open>2\<close>
  (as the repository's own test expects).
\<close>

theorem find_next_power_of_two_not_at_least:
  "unat (find_next_power_of_two 1) \<noteq> smallest_power_of_two_at_least (unat (1 :: U64))"
  by (simp add: find_next_power_of_two_def smallest_power_of_two_at_least.simps [of "Suc 0"])

text \<open>
  C3, amended: for every \<open>n\<close> below \<open>2 ^ 63\<close>, \<^verbatim>\<open>find_next_power_of_two(n)\<close> is the
  smallest power of two strictly greater than \<open>n\<close>; it maps 0 to 1, 1 to 2, 2 to 4, 3 to 4
  and 4 to 8.
\<close>

theorem find_next_power_of_two_strictly_greater:
  assumes "unat n < 2 ^ 63"
  shows "(\<exists>k. unat (find_next_power_of_two n) = 2 ^ k)
    \<and> unat n < unat (find_next_power_of_two n)
    \<and> (\<forall>k. unat n < 2 ^ k \<longrightarrow> unat (find_next_power_of_two n) \<le> 2 ^ k)
    \<and> find_next_power_of_two 0 = 1 \<and> find_next_power_of_two 1 = 2
    \<and> find_next_power_of_two 2 = 4 \<and> find_next_power_of_two 3 = 4
    \<and> find_next_power_of_two 4 = 8"
proof -
  have eq: "unat (find_next_power_of_two n) = 2 ^ bit_length (unat n)"
    using assms by (rule unat_find_next_power_of_two)
  then have a: "\<exists>k. unat (find_next_power_of_two n) = 2 ^ k" ..
  have b: "unat n < unat (find_next_power_of_two n)"
    using bit_length_upper [of "unat n"] by (simp only: eq)
  have c: "\<forall>k. unat n < 2 ^ k \<longrightarrow> unat (find_next_power_of_two n) \<le> 2 ^ k"
  proof (intro allI impI)
    fix k
    assume "unat n < 2 ^ k"
    then have "bit_length (unat n) \<le> k" by (rule bit_length_le)
    then show "unat (find_next_power_of_two n) \<le> 2 ^ k"
      by (simp only: eq) (rule power_increasing, simp_all)
  qed
  have d: "find_next_power_of_two 0 = 1" "find_next_power_of_two 1 = 2"
    "find_next_power_of_two 2 = 4" "find_next_power_of_two 3 = 4" "find_next_power_of_two 4 = 8"
    by (simp_all add: find_next_power_of_two_def)
  from a b c d show ?thesis by (intro conjI)
qed

theorem find_next_power_of_two_strictly_greater_witness:
  "unat (5 :: U64) < 2 ^ 63 \<and> unat (5 :: U64) < unat (find_next_power_of_two 5)"
proof -
  have h: "unat (5 :: U64) < 2 ^ 63" by simp
  from find_next_power_of_two_strictly_greater [OF h]
  have "unat (5 :: U64) < unat (find_next_power_of_two 5)" by (elim conjE)
  with h show ?thesis by (intro conjI)
qed

subsection \<open>Reading commands\<close>

lemma read_next_command_loop_eq:
  "read_next_command_loop pending c =
     (let cs = filter (\<lambda>c. c \<noteq> COMMAND_NONE) (map command_from_event pending)
      in (if cs = [] then c else last cs, []))"
  by (induction pending arbitrary: c) (simp_all add: Let_def)

text \<open>
  C4: for every finite sequence of pending events, \<^verbatim>\<open>read_next_command\<close> leaves the queue
  empty and returns the command of the last event whose command is not \<open>COMMAND_NONE\<close>, or
  \<open>COMMAND_NONE\<close> when there is no such event.
\<close>

theorem read_next_command_last_one_wins:
  "snd (read_next_command pending) = []
   \<and> fst (read_next_command pending) =
       (case filter (\<lambda>c. c \<noteq> COMMAND_NONE) (map command_from_event pending) of
          [] \<Rightarrow> COMMAND_NONE
        | c # cs \<Rightarrow> last (c # cs))"
  by (simp add: read_next_command_def read_next_command_loop_eq Let_def split: list.splits)

theorem read_next_command_last_one_wins_witness:
  "read_next_command
     [\<lparr>event_type = SDL_KEYDOWN, key_sym = SDLK_LEFT, text_text = []\<rparr>,
      \<lparr>event_type = SDL_KEYDOWN, key_sym = SDLK_SPACE, text_text = []\<rparr>,
      \<lparr>event_type = SDL_TEXTINPUT, key_sym = SDLK_OTHER, text_text = ''a''\<rparr>]
   = (COMMAND_JUMP, [])"
  using read_next_command_last_one_wins
    [of "[\<lparr>event_type = SDL_KEYDOWN, key_sym = SDLK_LEFT, text_text = []\<rparr>,
      \<lparr>event_type = SDL_KEYDOWN, key_sym = SDLK_SPACE, text_text = []\<rparr>,
      \<lparr>event_type = SDL_TEXTINPUT, key_sym = SDLK_OTHER, text_text = ''a''\<rparr>]"]
  by (simp add: command_from_event_def prod_eq_iff)

subsection \<open>Seeding and determinism\<close>

text \<open>
  C5 fails on the code where the clock reads zero: \<^verbatim>\<open>seed_random\<close> only stores the clock
  in \<^verbatim>\<open>x\<close>, so from the zero-initialised statics it leaves all four variables zero, and
  the generator then returns zero forever.
\<close>

theorem seed_random_zero_clock:
  "seed_random 0 initial_generator = \<lparr>var_x = 0, var_y = 0, var_z = 0, var_w = 0\<rparr>
   \<and> xorshift128 (seed_random 0 initial_generator) = (0, seed_random 0 initial_generator)"
  by (simp add: seed_random_def initial_generator_def xorshift128_def)

text \<open>For every other reading of the clock the seeded state is not all zero.\<close>

lemma seed_random_nonzero_clock:
  "now \<noteq> 0 \<Longrightarrow> var_x (seed_random now g) \<noteq> 0"
  by (simp add: seed_random_def)

text \<open>
  C6: two runs that start from generators with equal \<^verbatim>\<open>x\<close>, \<^verbatim>\<open>y\<close>, \<^verbatim>\<open>z\<close>, \<^verbatim>\<open>w\<close> and
  make the same sequence of calls produce the same results and end in the same state
  (and one does not return exactly when the other does not).
\<close>

theorem random_source_deterministic:
  assumes "var_x g1 = var_x g2" "var_y g1 = var_y g2" "var_z g1 = var_z g2" "var_w g1 = var_w g2"
  shows "run_calls cs g1 = run_calls cs g2"
proof -
  have "g1 = g2" using assms by simp
  then show ?thesis by simp
qed

theorem random_source_deterministic_witness:
  "run_calls [Call_xorshift128, Call_random_integer (-3) 4, Call_random_integer 4 3]
     (seed_random 1700000000 initial_generator)
   = run_calls [Call_xorshift128, Call_random_integer (-3) 4, Call_random_integer 4 3]
     \<lparr>var_x = 1700000000, var_y = 0, var_z = 0, var_w = 0\<rparr>
   \<and> run_calls [Call_xorshift128, Call_random_integer (-3) 4, Call_random_integer 4 3]
     \<lparr>var_x = 1700000000, var_y = 0, var_z = 0, var_w = 0\<rparr>
   = Some ([Result_U64 3478120377073, Result_S32 2, Result_S32 0],
       \<lparr>var_x = 0, var_y = 0, var_z = 3478120377073, var_w = 3478122664181\<rparr>)"
  using random_source_deterministic
    [of "seed_random 1700000000 initial_generator"
        "\<lparr>var_x = 1700000000, var_y = 0, var_z = 0, var_w = 0\<rparr>"
        "[Call_xorshift128, Call_random_integer (-3) 4, Call_random_integer 4 3]"]
  by (simp add: random_integer_def find_next_power_of_two_def sample_loop.simps xorshift128_def
      seed_random_def initial_generator_def)

subsection \<open>The buffer of \<^verbatim>\<open>read_string\<close>\<close>

lemma strlen_Nil: "strlen [] = None"
  by (simp add: strlen_def)

lemma strlen_Cons:
  "strlen (c # cs) = (if c = NUL then Some 0 else map_option Suc (strlen cs))"
  by (simp add: strlen_def)

text \<open>\<^verbatim>\<open>strlen\<close> is \<open>n\<close> exactly when the first NUL of the buffer is at offset \<open>n\<close>.\<close>

lemma strlen_iff:
  "strlen buffer = Some n \<longleftrightarrow>
     n < length buffer \<and> buffer ! n = NUL \<and> (\<forall>i<n. buffer ! i \<noteq> NUL)"
proof (induction buffer arbitrary: n)
  case Nil
  show ?case by (simp add: strlen_Nil)
next
  case (Cons c cs)
  show ?case
  proof (cases "c = NUL")
    case True
    show ?thesis
    proof (cases n)
      case 0
      with True show ?thesis by (simp add: strlen_Cons)
    next
      case (Suc m)
      have "\<not> (\<forall>i<n. (c # cs) ! i \<noteq> NUL)"
        using True Suc by (auto intro: exI [of _ 0])
      with True Suc show ?thesis by (simp add: strlen_Cons)
    qed
  next
    case False
    show ?thesis
    proof (cases n)
      case 0
      with False show ?thesis by (auto simp: strlen_Cons)
    next
      case (Suc m)
      have "(\<forall>i<Suc m. (c # cs) ! i \<noteq> NUL) \<longleftrightarrow> (\<forall>i<m. cs ! i \<noteq> NUL)"
        using False by (auto simp: nth_Cons' less_Suc_eq_0_disj)
      with False Suc Cons [of m] show ?thesis
        by (auto simp: strlen_Cons)
    qed
  qed
qed

lemma is_valid_input_character_not_NUL: "is_valid_input_character c \<Longrightarrow> c \<noteq> NUL"
  by (auto simp: is_valid_input_character_def isalnum_def NUL_def)

lemma strlen_append_character:
  assumes "strlen buffer = Some n" "Suc n < length buffer" "c \<noteq> NUL"
  shows "strlen (buffer[n := c, Suc n := NUL]) = Some (Suc n)"
proof -
  from assms(1) have old: "\<forall>i<n. buffer ! i \<noteq> NUL"
    by (simp add: strlen_iff)
  have "\<forall>i<Suc n. buffer[n := c, Suc n := NUL] ! i \<noteq> NUL"
  proof (intro allI impI)
    fix i assume "i < Suc n"
    then consider "i < n" | "i = n" by linarith
    then show "buffer[n := c, Suc n := NUL] ! i \<noteq> NUL"
    proof cases
      case 1
      with old assms(2) show ?thesis by simp
    next
      case 2
      with assms(2,3) show ?thesis by simp
    qed
  qed
  moreover have "buffer[n := c, Suc n := NUL] ! Suc n = NUL"
    using assms(2) by simp
  ultimately show ?thesis
    using assms(2) by (simp add: strlen_iff)
qed

lemma strlen_remove_character:
  assumes "strlen buffer = Some n" "0 < n"
  shows "strlen (buffer[n - 1 := NUL]) = Some (n - 1)"
proof -
  from assms(1) have old: "\<forall>i<n. buffer ! i \<noteq> NUL" and len: "n < length buffer"
    by (simp_all add: strlen_iff)
  have "\<forall>i<n - 1. buffer[n - 1 := NUL] ! i \<noteq> NUL"
    using old by simp
  moreover have "buffer[n - 1 := NUL] ! (n - 1) = NUL"
    using len by simp
  ultimately show ?thesis
    using len by (simp add: strlen_iff)
qed

text \<open>One pass through the body of the loop keeps the buffer a string below \<^verbatim>\<open>size\<close>.\<close>

lemma read_string_event_invariant:
  assumes inv: "holds_string_below size' s" and cap: "size' \<le> length (destination s)"
    and step: "read_string_event size' waited s = (outcome, s')"
  shows "outcome \<noteq> Faulted \<and> holds_string_below size' s'
    \<and> length (destination s') = length (destination s)"
proof -
  from inv have len: "strlen (destination s) = Some (written s)"
    and below: "written s < size'" and ptr: "write_pointer s = written s"
    by (simp_all add: holds_string_below_def)
  from len have inside: "written s < length (destination s)"
    by (simp add: strlen_iff)
  show ?thesis
  proof (cases waited)
    case None
    with step inv show ?thesis by (auto simp: read_string_event_def)
  next
    case (Some event)
    consider (quit) "event_type event = SDL_QUIT"
      | (backspace) "event_type event = SDL_KEYDOWN" "key_sym event = SDLK_BACKSPACE" "written s > 0"
      | (enter) "event_type event = SDL_KEYDOWN" "\<not> (key_sym event = SDLK_BACKSPACE \<and> written s > 0)"
          "key_sym event = SDLK_RETURN"
      | (other_key) "event_type event = SDL_KEYDOWN" "\<not> (key_sym event = SDLK_BACKSPACE \<and> written s > 0)"
          "key_sym event \<noteq> SDLK_RETURN"
      | (append) "event_type event = SDL_TEXTINPUT"
          "is_valid_input_character (case text_text event of [] \<Rightarrow> NUL | c # cs \<Rightarrow> c)"
          "written s + 1 < size'"
      | (rejected) "event_type event = SDL_TEXTINPUT"
          "\<not> (is_valid_input_character (case text_text event of [] \<Rightarrow> NUL | c # cs \<Rightarrow> c)
              \<and> written s + 1 < size')"
      | (other) "event_type event = SDL_OTHER_EVENT"
      by (cases "event_type event") auto
    then show ?thesis
    proof cases
      case quit
      with step Some inv show ?thesis by (auto simp: read_string_event_def)
    next
      case backspace
      have st: "store size' (written s - 1) NUL (destination s)
          = Some ((destination s)[written s - 1 := NUL])"
        using backspace(3) below inside by (simp add: store_def less_imp_diff_less)
      have "strlen ((destination s)[written s - 1 := NUL]) = Some (written s - 1)"
        using len backspace(3) by (rule strlen_remove_character)
      with step Some backspace st ptr below show ?thesis
        by (auto simp: read_string_event_def holds_string_below_def)
    next
      case enter
      with step Some inv show ?thesis
        by (auto simp: read_string_event_def holds_string_below_def)
    next
      case other_key
      with step Some inv show ?thesis
        by (auto simp: read_string_event_def)
    next
      case append
      let ?c = "case text_text event of [] \<Rightarrow> NUL | c # cs \<Rightarrow> c"
      have room: "Suc (written s) < length (destination s)"
        using append(3) cap by simp
      have st1: "store size' (written s) ?c (destination s)
          = Some ((destination s)[written s := ?c])"
        using below inside by (simp add: store_def)
      have st2: "store size' (written s + 1) NUL ((destination s)[written s := ?c])
          = Some ((destination s)[written s := ?c, Suc (written s) := NUL])"
        using append(3) room by (simp add: store_def)
      have "strlen ((destination s)[written s := ?c, Suc (written s) := NUL])
          = Some (Suc (written s))"
        using len room is_valid_input_character_not_NUL [OF append(2)]
        by (rule strlen_append_character)
      with step Some append st1 st2 ptr show ?thesis
        by (auto simp: read_string_event_def holds_string_below_def Let_def)
    next
      case rejected
      with step Some inv show ?thesis
        by (auto simp: read_string_event_def Let_def)
    next
      case other
      with step Some inv show ?thesis by (auto simp: read_string_event_def)
    qed
  qed
qed

lemma holds_string_below_rerender:
  "holds_string_below size' (s\<lparr>should_rerender := b\<rparr>) = holds_string_below size' s"
  by (simp add: holds_string_below_def)

lemma read_string_loop_invariant:
  assumes "holds_string_below size' s" "size' \<le> length (destination s)"
  shows "fst (read_string_loop size' waits s) \<noteq> Faulted
    \<and> holds_string_below size' (snd (read_string_loop size' waits s))"
  using assms
proof (induction waits arbitrary: s)
  case Nil
  then show ?case
    by (simp add: read_string_loop.simps [of _ "[]"] holds_string_below_rerender)
next
  case (Cons waited waits)
  show ?case
  proof (cases "is_done s")
    case True
    with Cons.prems show ?thesis
      by (simp add: read_string_loop.simps [of _ "waited # waits"])
  next
    case False
    let ?s = "s\<lparr>should_rerender := False\<rparr>"
    obtain outcome s' where step: "read_string_event size' waited ?s = (outcome, s')"
      by (cases "read_string_event size' waited ?s")
    have "holds_string_below size' ?s" "size' \<le> length (destination ?s)"
      using Cons.prems by (simp_all add: holds_string_below_rerender)
    from read_string_event_invariant [OF this step]
    have ok: "outcome \<noteq> Faulted" and inv': "holds_string_below size' s'"
      and len': "length (destination s') = length (destination s)"
      by simp_all
    show ?thesis
    proof (cases outcome)
      case Waiting
      have "read_string_loop size' (waited # waits) s = read_string_loop size' waits s'"
        using False step Waiting by (simp add: read_string_loop.simps [of _ "waited # waits"])
      moreover have "size' \<le> length (destination s')"
        using len' Cons.prems(2) by simp
      ultimately show ?thesis
        using Cons.IH [OF inv'] by simp
    next
      case (Returned code)
      with False step inv' show ?thesis
        by (simp add: read_string_loop.simps [of _ "waited # waits"])
    next
      case Faulted
      with ok show ?thesis by simp
    qed
  qed
qed
text \<open>
  The body of the loop changes the string only on the two guarded paths: it appends one
  character when the text input starts with an alphanumeric character and
  \<^verbatim>\<open>written + 1 < size\<close>, and it removes one on a backspace when \<^verbatim>\<open>written > 0\<close>.
\<close>

lemma read_string_event_guards:
  assumes inv: "holds_string_below size' s" and cap: "size' \<le> length (destination s)"
    and step: "read_string_event size' waited s = (outcome, s')"
  shows "(written s < written s' \<longrightarrow>
            (\<exists>event. waited = Some event \<and> event_type event = SDL_TEXTINPUT
               \<and> is_valid_input_character (case text_text event of [] \<Rightarrow> NUL | c # cs \<Rightarrow> c)
               \<and> written s + 1 < size' \<and> written s' = written s + 1))
       \<and> (written s' < written s \<longrightarrow>
            (\<exists>event. waited = Some event \<and> event_type event = SDL_KEYDOWN
               \<and> key_sym event = SDLK_BACKSPACE \<and> 0 < written s
               \<and> written s' = written s - 1))
       \<and> (written s' = written s \<longrightarrow> destination s' = destination s)"
proof (cases waited)
  case None
  with step have "s' = s" by (simp add: read_string_event_def)
  then show ?thesis by simp
next
  case (Some event)
  from inv have below: "written s < size'" and ptr: "write_pointer s = written s"
    and inside: "written s < length (destination s)"
    by (simp_all add: holds_string_below_def strlen_iff)
  let ?c = "case text_text event of [] \<Rightarrow> NUL | c # cs \<Rightarrow> c"
  consider (backspace) "event_type event = SDL_KEYDOWN" "key_sym event = SDLK_BACKSPACE"
      "written s > 0"
    | (append) "event_type event = SDL_TEXTINPUT" "is_valid_input_character ?c"
      "written s + 1 < size'"
    | (enter) "event_type event = SDL_KEYDOWN"
      "\<not> (key_sym event = SDLK_BACKSPACE \<and> written s > 0)" "key_sym event = SDLK_RETURN"
    | (unchanged) "\<not> (event_type event = SDL_KEYDOWN \<and> key_sym event = SDLK_BACKSPACE
          \<and> written s > 0)"
      "\<not> (event_type event = SDL_TEXTINPUT \<and> is_valid_input_character ?c
          \<and> written s + 1 < size')"
      "\<not> (event_type event = SDL_KEYDOWN \<and> key_sym event = SDLK_RETURN)"
    by fastforce
  then show ?thesis
  proof cases
    case backspace
    have "store size' (written s - 1) NUL (destination s)
        = Some ((destination s)[written s - 1 := NUL])"
      using backspace(3) below inside by (simp add: store_def less_imp_diff_less)
    with step Some backspace ptr
    have "s' = s\<lparr>destination := (destination s)[written s - 1 := NUL],
        write_pointer := written s - 1, written := written s - 1, should_rerender := True\<rparr>"
      by (simp add: read_string_event_def)
    then have w: "written s' = written s - 1" by simp
    have "\<exists>e. waited = Some e \<and> event_type e = SDL_KEYDOWN \<and> key_sym e = SDLK_BACKSPACE
        \<and> 0 < written s \<and> written s' = written s - 1"
      using Some backspace w by (intro exI [of _ event]) simp
    moreover have "\<not> written s < written s'" "written s' \<noteq> written s"
      using w backspace(3) by simp_all
    ultimately show ?thesis by simp
  next
    case append
    have room: "Suc (written s) < length (destination s)"
      using append(3) cap by simp
    have st1: "store size' (written s) ?c (destination s)
        = Some ((destination s)[written s := ?c])"
      using below inside by (simp add: store_def)
    have st2: "store size' (written s + 1) NUL ((destination s)[written s := ?c])
        = Some ((destination s)[written s := ?c, Suc (written s) := NUL])"
      using append(3) room by (simp add: store_def)
    from step Some append st1 st2 ptr
    have "s' = s\<lparr>destination := (destination s)[written s := ?c, Suc (written s) := NUL],
        write_pointer := written s + 1, written := written s + 1, should_rerender := True\<rparr>"
      by (simp add: read_string_event_def Let_def)
    then have w: "written s' = written s + 1" by simp
    have "\<exists>e. waited = Some e \<and> event_type e = SDL_TEXTINPUT
        \<and> is_valid_input_character (case text_text e of [] \<Rightarrow> NUL | c # cs \<Rightarrow> c)
        \<and> written s + 1 < size' \<and> written s' = written s + 1"
      using Some append w by (intro exI [of _ event]) simp
    moreover have "\<not> written s' < written s" "written s' \<noteq> written s"
      using w by simp_all
    ultimately show ?thesis by simp
  next
    case enter
    with step Some have "s' = s\<lparr>is_done := True\<rparr>"
      by (auto simp: read_string_event_def)
    then show ?thesis by simp
  next
    case unchanged
    have "read_string_event size' (Some event) s = (outcome, s') \<Longrightarrow> s' = s"
      using unchanged by (cases "event_type event") (auto simp: read_string_event_def Let_def)
    with step Some have "s' = s" by simp
    then show ?thesis by simp
  qed
qed

text \<open>
  A run over a longer list of waits passes through the state that the run over a prefix
  ends in, so a statement about the end of every run is one about every point of a run.
\<close>

lemma read_string_loop_append:
  "read_string_loop size' (waits @ waits') s =
     (case read_string_loop size' waits s of
        (Waiting, s') \<Rightarrow> read_string_loop size' waits' s'
      | (outcome, s') \<Rightarrow> (outcome, s'))"
proof (induction waits arbitrary: s)
  case Nil
  show ?case
  proof (cases "is_done s")
    case True
    then show ?thesis
      by (simp add: read_string_loop.simps [of _ "[]"] read_string_loop.simps [of _ waits'])
  next
    case False
    then show ?thesis
      by (simp add: read_string_loop.simps [of _ "[]" s] read_string_loop.simps [of _ waits' s]
          read_string_loop.simps [of _ waits' "s\<lparr>should_rerender := False\<rparr>"]
          split: list.splits)
  qed
next
  case (Cons waited waits)
  show ?case
  proof (cases "is_done s")
    case True
    then show ?thesis
      by (simp add: read_string_loop.simps [of _ "waited # waits"]
          read_string_loop.simps [of _ "waited # waits @ waits'"])
  next
    case False
    obtain outcome s' where step:
      "read_string_event size' waited (s\<lparr>should_rerender := False\<rparr>) = (outcome, s')"
      by (cases "read_string_event size' waited (s\<lparr>should_rerender := False\<rparr>)")
    show ?thesis
    proof (cases outcome)
      case Waiting
      with False step Cons.IH [of s'] show ?thesis
        by (simp add: read_string_loop.simps [of _ "waited # waits"]
            read_string_loop.simps [of _ "waited # waits @ waits'"])
    next
      case (Returned code)
      with False step show ?thesis
        by (simp add: read_string_loop.simps [of _ "waited # waits"]
            read_string_loop.simps [of _ "waited # waits @ waits'"])
    next
      case Faulted
      with False step show ?thesis
        by (simp add: read_string_loop.simps [of _ "waited # waits"]
            read_string_loop.simps [of _ "waited # waits @ waits'"])
    qed
  qed
qed

text \<open>
  C9: if \<^verbatim>\<open>destination\<close> holds a NUL-terminated string shorter than \<^verbatim>\<open>size\<close> (in a buffer
  of at least \<^verbatim>\<open>size\<close> bytes), then whatever the events, no store of \<^verbatim>\<open>read_string\<close> falls
  at or beyond offset \<^verbatim>\<open>size\<close> (the run never faults) and the buffer holds a NUL-terminated
  string shorter than \<^verbatim>\<open>size\<close> at the end of the run, hence at every point of it; and from
  every such state one pass of the loop appends a character only if the character is
  alphanumeric and \<^verbatim>\<open>written + 1 < size\<close>, and removes one only on a backspace with
  \<^verbatim>\<open>written > 0\<close>.
\<close>

theorem read_string_keeps_string_below_size:
  assumes "strlen buffer = Some n" "n < size'" "size' \<le> length buffer"
  shows "fst (read_string buffer size' waits) \<noteq> Faulted
    \<and> holds_string_below size' (snd (read_string buffer size' waits))
    \<and> (\<forall>s waited outcome s'.
          holds_string_below size' s \<and> size' \<le> length (destination s)
          \<and> read_string_event size' waited s = (outcome, s') \<longrightarrow>
          outcome \<noteq> Faulted \<and> holds_string_below size' s'
          \<and> (written s < written s' \<longrightarrow>
                (\<exists>event. waited = Some event \<and> event_type event = SDL_TEXTINPUT
                   \<and> is_valid_input_character
                        (case text_text event of [] \<Rightarrow> NUL | c # cs \<Rightarrow> c)
                   \<and> written s + 1 < size' \<and> written s' = written s + 1))
          \<and> (written s' < written s \<longrightarrow>
                (\<exists>event. waited = Some event \<and> event_type event = SDL_KEYDOWN
                   \<and> key_sym event = SDLK_BACKSPACE \<and> 0 < written s
                   \<and> written s' = written s - 1))
          \<and> (written s' = written s \<longrightarrow> destination s' = destination s))"
proof -
  let ?s = "\<lparr>destination = buffer, written = n, write_pointer = n, is_done = False,
    should_rerender = True\<rparr>"
  have inv: "holds_string_below size' ?s"
    using assms(1,2) by (simp add: holds_string_below_def)
  have cap: "size' \<le> length (destination ?s)"
    using assms(3) by simp
  have run: "read_string buffer size' waits = read_string_loop size' waits ?s"
    using assms(1) by (simp add: read_string_def)
  have a: "fst (read_string buffer size' waits) \<noteq> Faulted"
    using read_string_loop_invariant [OF inv cap, of waits] unfolding run by (elim conjE)
  have b: "holds_string_below size' (snd (read_string buffer size' waits))"
    using read_string_loop_invariant [OF inv cap, of waits] unfolding run by (elim conjE)
  have c: "\<forall>s waited outcome s'.
          holds_string_below size' s \<and> size' \<le> length (destination s)
          \<and> read_string_event size' waited s = (outcome, s') \<longrightarrow>
          outcome \<noteq> Faulted \<and> holds_string_below size' s'
          \<and> (written s < written s' \<longrightarrow>
                (\<exists>event. waited = Some event \<and> event_type event = SDL_TEXTINPUT
                   \<and> is_valid_input_character
                        (case text_text event of [] \<Rightarrow> NUL | c # cs \<Rightarrow> c)
                   \<and> written s + 1 < size' \<and> written s' = written s + 1))
          \<and> (written s' < written s \<longrightarrow>
                (\<exists>event. waited = Some event \<and> event_type event = SDL_KEYDOWN
                   \<and> key_sym event = SDLK_BACKSPACE \<and> 0 < written s
                   \<and> written s' = written s - 1))
          \<and> (written s' = written s \<longrightarrow> destination s' = destination s)"
  proof (intro allI impI)
    fix s waited outcome s'
    assume "holds_string_below size' s \<and> size' \<le> length (destination s)
        \<and> read_string_event size' waited s = (outcome, s')"
    then have h: "holds_string_below size' s" "size' \<le> length (destination s)"
      "read_string_event size' waited s = (outcome, s')" by simp_all
    from read_string_event_invariant [OF h]
    have "outcome \<noteq> Faulted" "holds_string_below size' s'" by simp_all
    with read_string_event_guards [OF h]
    show "outcome \<noteq> Faulted \<and> holds_string_below size' s'
          \<and> (written s < written s' \<longrightarrow>
                (\<exists>event. waited = Some event \<and> event_type event = SDL_TEXTINPUT
                   \<and> is_valid_input_character
                        (case text_text event of [] \<Rightarrow> NUL | c # cs \<Rightarrow> c)
                   \<and> written s + 1 < size' \<and> written s' = written s + 1))
          \<and> (written s' < written s \<longrightarrow>
                (\<exists>event. waited = Some event \<and> event_type event = SDL_KEYDOWN
                   \<and> key_sym event = SDLK_BACKSPACE \<and> 0 < written s
                   \<and> written s' = written s - 1))
          \<and> (written s' = written s \<longrightarrow> destination s' = destination s)"
      by (intro conjI) (assumption | elim conjE)+
  qed
  from a b c show ?thesis by (intro conjI) assumption+
qed

theorem read_string_keeps_string_below_size_witness:
  "strlen [CHR ''a'', CHR ''b'', NUL, CHR ''x''] = Some 2 \<and> (2 :: nat) < 4
   \<and> (4 :: nat) \<le> length [CHR ''a'', CHR ''b'', NUL, CHR ''x'']
   \<and> read_string [CHR ''a'', CHR ''b'', NUL, CHR ''x''] 4
        [Some \<lparr>event_type = SDL_TEXTINPUT, key_sym = SDLK_OTHER, text_text = ''c''\<rparr>,
         Some \<lparr>event_type = SDL_TEXTINPUT, key_sym = SDLK_OTHER, text_text = ''d''\<rparr>,
         Some \<lparr>event_type = SDL_KEYDOWN, key_sym = SDLK_BACKSPACE, text_text = []\<rparr>,
         Some \<lparr>event_type = SDL_TEXTINPUT, key_sym = SDLK_OTHER, text_text = ''-''\<rparr>,
         Some \<lparr>event_type = SDL_KEYDOWN, key_sym = SDLK_RETURN, text_text = []\<rparr>]
      = (Returned CODE_OK,
         \<lparr>destination = [CHR ''a'', CHR ''b'', NUL, NUL], written = 2, write_pointer = 2,
            is_done = True, should_rerender = False\<rparr>)
   \<and> holds_string_below 4
        \<lparr>destination = [CHR ''a'', CHR ''b'', NUL, NUL], written = 2, write_pointer = 2,
           is_done = True, should_rerender = False\<rparr>"
proof -
  have h: "strlen [CHR ''a'', CHR ''b'', NUL, CHR ''x''] = Some 2" "(2 :: nat) < 4"
    "(4 :: nat) \<le> length [CHR ''a'', CHR ''b'', NUL, CHR ''x'']"
    by (simp_all add: strlen_def NUL_def)
  have run: "read_string [CHR ''a'', CHR ''b'', NUL, CHR ''x''] 4
        [Some \<lparr>event_type = SDL_TEXTINPUT, key_sym = SDLK_OTHER, text_text = ''c''\<rparr>,
         Some \<lparr>event_type = SDL_TEXTINPUT, key_sym = SDLK_OTHER, text_text = ''d''\<rparr>,
         Some \<lparr>event_type = SDL_KEYDOWN, key_sym = SDLK_BACKSPACE, text_text = []\<rparr>,
         Some \<lparr>event_type = SDL_TEXTINPUT, key_sym = SDLK_OTHER, text_text = ''-''\<rparr>,
         Some \<lparr>event_type = SDL_KEYDOWN, key_sym = SDLK_RETURN, text_text = []\<rparr>]
      = (Returned CODE_OK,
         \<lparr>destination = [CHR ''a'', CHR ''b'', NUL, NUL], written = 2, write_pointer = 2,
            is_done = True, should_rerender = False\<rparr>)"
    by code_simp
  from read_string_keeps_string_below_size [OF h,
    of "[Some \<lparr>event_type = SDL_TEXTINPUT, key_sym = SDLK_OTHER, text_text = ''c''\<rparr>,
         Some \<lparr>event_type = SDL_TEXTINPUT, key_sym = SDLK_OTHER, text_text = ''d''\<rparr>,
         Some \<lparr>event_type = SDL_KEYDOWN, key_sym = SDLK_BACKSPACE, text_text = []\<rparr>,
         Some \<lparr>event_type = SDL_TEXTINPUT, key_sym = SDLK_OTHER, text_text = ''-''\<rparr>,
         Some \<lparr>event_type = SDL_KEYDOWN, key_sym = SDLK_RETURN, text_text = []\<rparr>]"]
  have "holds_string_below 4
        \<lparr>destination = [CHR ''a'', CHR ''b'', NUL, NUL], written = 2, write_pointer = 2,
           is_done = True, should_rerender = False\<rparr>"
    by (simp only: run snd_conv)
  with h run show ?thesis by (intro conjI)
qed

subsection \<open>Drawing with bad geometry\<close>

text \<open>
  C10: for every \<open>x\<close> and \<open>y\<close>, negative ones included, \<^verbatim>\<open>print_absolute\<close> returns
  \<open>CODE_OK\<close> and renders nothing (the state of \<^verbatim>\<open>io.c\<close> and of the renderer is the one it
  was given) when the string is \<^verbatim>\<open>NULL\<close> or empty.
\<close>

theorem print_absolute_empty_string_is_ok:
  assumes "string = None \<or> string = Some []"
  shows "print_absolute e x y string color_pair io = (CODE_OK, io)"
  using assms by (auto simp: print_absolute_def)

theorem print_absolute_empty_string_is_ok_witness:
  "print_absolute sample_environment (- 3) (- 4) None sample_color_pair sample_io_state
     = (CODE_OK, sample_io_state)
   \<and> print_absolute sample_environment (- 3) (- 4) (Some ''a'') sample_color_pair sample_io_state
     = (CODE_ERROR, sample_io_state)"
  using print_absolute_empty_string_is_ok
    [of None sample_environment "- 3" "- 4" sample_color_pair sample_io_state]
  by (simp add: print_absolute_def)

text \<open>
  C7, as stated, fails: with an empty string and a negative coordinate \<^verbatim>\<open>print_absolute\<close>
  returns \<open>CODE_OK\<close>, not \<open>CODE_ERROR\<close>.
\<close>

theorem print_absolute_negative_not_error:
  "fst (print_absolute sample_environment (- 1) 5 (Some []) sample_color_pair sample_io_state)
     \<noteq> CODE_ERROR"
  by (simp add: print_absolute_def)

lemma get_tile_width_Some:
  "get_columns e \<noteq> 0 \<Longrightarrow>
     get_tile_width e io = Some (c_quotient (window_width io) (get_columns e))"
  by (simp add: get_tile_width_def c_div_def get_window_width_def)

lemma get_tile_height_Some:
  "get_lines e \<noteq> 0 \<Longrightarrow>
     get_tile_height e io = Some (c_quotient (window_height io - bar_height io) (get_lines e))"
  by (simp add: get_tile_height_def c_div_def get_window_height_def get_bar_height_def)

text \<open>
  C7, amended: given numbers of columns and of lines that are not zero (the tile size is
  computed before the checks), \<^verbatim>\<open>print_absolute\<close> with a negative coordinate and a
  non-empty string, \<^verbatim>\<open>print_centered\<close> with a negative line and \<^verbatim>\<open>cache_borders_texture\<close>
  with invalid limits return \<open>CODE_ERROR\<close> and draw nothing: the renderer and the cached
  texture are as before. With a \<^verbatim>\<open>NULL\<close> or empty string \<^verbatim>\<open>print_absolute\<close> returns
  \<open>CODE_OK\<close>, whatever the coordinates, and draws nothing either.
\<close>

theorem drawing_rejects_bad_geometry:
  assumes "get_columns e \<noteq> 0" "get_lines e \<noteq> 0"
  shows "((x < 0 \<or> y < 0) \<and> s \<noteq> [] \<longrightarrow>
            print_absolute e x y (Some s) color_pair io = (CODE_ERROR, io))
    \<and> (string = None \<or> string = Some [] \<longrightarrow>
            print_absolute e x y string color_pair io = (CODE_OK, io))
    \<and> (y < 0 \<longrightarrow> print_centered e y s color_pair io = Some (CODE_ERROR, io))
    \<and> (min_x borders < 0 \<or> min_y borders < 0 \<or> min_x borders > max_x borders
          \<or> min_y borders > max_y borders \<longrightarrow>
        (\<exists>io'. cache_borders_texture e borders io = Some (CODE_ERROR, io')
           \<and> renderer io' = renderer io \<and> borders_texture io' = borders_texture io))"
proof -
  have a: "(x < 0 \<or> y < 0) \<and> s \<noteq> [] \<longrightarrow>
      print_absolute e x y (Some s) color_pair io = (CODE_ERROR, io)"
    by (simp add: print_absolute_def)
  have b: "string = None \<or> string = Some [] \<longrightarrow>
      print_absolute e x y string color_pair io = (CODE_OK, io)"
    by (auto simp: print_absolute_def)
  have c: "y < 0 \<longrightarrow> print_centered e y s color_pair io = Some (CODE_ERROR, io)"
    using assms(2) by (simp add: print_centered_def get_tile_height_Some)
  have d: "min_x borders < 0 \<or> min_y borders < 0 \<or> min_x borders > max_x borders
        \<or> min_y borders > max_y borders \<longrightarrow>
      (\<exists>io'. cache_borders_texture e borders io = Some (CODE_ERROR, io')
         \<and> renderer io' = renderer io \<and> borders_texture io' = borders_texture io)"
  proof
    assume bad: "min_x borders < 0 \<or> min_y borders < 0 \<or> min_x borders > max_x borders
        \<or> min_y borders > max_y borders"
    show "\<exists>io'. cache_borders_texture e borders io = Some (CODE_ERROR, io')
         \<and> renderer io' = renderer io \<and> borders_texture io' = borders_texture io"
    proof (cases "borders_texture io = None")
      case True
      with bad assms have "cache_borders_texture e borders io
          = Some (CODE_ERROR, log_message ''Got invalid border limits'' io)"
        by (simp add: cache_borders_texture_def get_tile_width_Some get_tile_height_Some Let_def)
      then show ?thesis by (simp add: log_message_def)
    next
      case False
      with assms have "cache_borders_texture e borders io = Some (CODE_ERROR, io)"
        by (simp add: cache_borders_texture_def get_tile_width_Some get_tile_height_Some Let_def)
      then show ?thesis by simp
    qed
  qed
  from a b c d show ?thesis by (intro conjI)
qed

theorem drawing_rejects_bad_geometry_witness:
  "get_columns sample_environment \<noteq> 0 \<and> get_lines sample_environment \<noteq> 0
   \<and> print_absolute sample_environment (- 1) 5 (Some ''abc'') sample_color_pair sample_io_state
       = (CODE_ERROR, sample_io_state)
   \<and> print_centered sample_environment (- 2) ''abc'' sample_color_pair sample_io_state
       = Some (CODE_ERROR, sample_io_state)
   \<and> cache_borders_texture sample_environment
         \<lparr>min_x = 3, max_x = 2, min_y = 0, max_y = 29\<rparr> sample_io_state
       = Some (CODE_ERROR, sample_io_state\<lparr>logged := [''Got invalid border limits'']\<rparr>)"
proof -
  have h: "get_columns sample_environment \<noteq> 0" "get_lines sample_environment \<noteq> 0"
    by (simp_all add: sample_environment_def)
  from drawing_rejects_bad_geometry [OF h, where x = "- 1" and y = 5 and s = "''abc''"
      and color_pair = sample_color_pair and io = sample_io_state]
  have "print_absolute sample_environment (- 1) 5 (Some ''abc'') sample_color_pair sample_io_state
       = (CODE_ERROR, sample_io_state)" by simp
  moreover have "print_centered sample_environment (- 2) ''abc'' sample_color_pair sample_io_state
       = Some (CODE_ERROR, sample_io_state)"
    by (simp add: print_centered_def get_tile_height_Some h)
  moreover have "cache_borders_texture sample_environment
         \<lparr>min_x = 3, max_x = 2, min_y = 0, max_y = 29\<rparr> sample_io_state
       = Some (CODE_ERROR, sample_io_state\<lparr>logged := [''Got invalid border limits'']\<rparr>)"
    by (simp add: cache_borders_texture_def get_tile_width_Some get_tile_height_Some h
        Let_def log_message_def) (simp add: sample_io_state_def)
  ultimately show ?thesis using h by (intro conjI)
qed

subsection \<open>Drawing the game\<close>

text \<open>
  None of the drawing functions reads the clock, and with numbers of columns and of lines
  that are not zero each of them returns.
\<close>

lemma clock_reads_render: "clock_reads (render request io) = clock_reads io"
  by (simp add: render_def)

lemma clock_reads_log_message: "clock_reads (log_message text' io) = clock_reads io"
  by (simp add: log_message_def)

lemma clock_reads_render_copy: "clock_reads (render_copy e texture x y io) = clock_reads io"
  by (simp add: render_copy_def clock_reads_render)

lemma clock_reads_draw_absolute_rectangle:
  "clock_reads (draw_absolute_rectangle x y w h color io) = clock_reads io"
  by (simp add: draw_absolute_rectangle_def clock_reads_render)

lemma clock_reads_print_absolute:
  "clock_reads (snd (print_absolute e x y string color_pair io)) = clock_reads io"
  by (simp add: print_absolute_def clock_reads_log_message clock_reads_render_copy
      split: option.splits)

lemma draw_rectangle_returns:
  assumes "get_columns e \<noteq> 0" "get_lines e \<noteq> 0"
  shows "\<exists>io'. draw_rectangle e x y w h color io = Some io' \<and> clock_reads io' = clock_reads io"
  using assms
  by (simp add: draw_rectangle_def get_tile_width_Some get_tile_height_Some
      clock_reads_draw_absolute_rectangle)

lemma print_strings_in_slices_returns:
  assumes "0 \<le> i" "string_count \<le> int (length strings)"
  shows "\<exists>code io'. print_strings_in_slices e i string_count slice_size y strings color_pair io
            = Some (code, io') \<and> clock_reads io' = clock_reads io"
  using assms
proof (induction e i string_count slice_size y strings color_pair io
    rule: print_strings_in_slices.induct)
  case (1 e i string_count slice_size y strings color_pair io)
  show ?case
  proof (cases "i < string_count")
    case False
    then show ?thesis
      by (simp add: print_strings_in_slices.simps [of e i])
  next
    case True
    with "1.prems" have inside: "\<not> (i < 0 \<or> nat i \<ge> length strings)"
      by linarith
    let ?string = "strings ! nat i"
    let ?texture = "Text_Texture ?string (foreground color_pair) (background color_pair)"
    let ?io = "render_copy e ?texture
      (i * slice_size + c_quotient (slice_size - fst (query_texture e ?texture)) 2) y io"
    show ?thesis
    proof (cases "render_text_fails e ?string \<or> create_texture_fails e ?string")
      case True
      with \<open>i < string_count\<close> inside show ?thesis
        by (auto simp: print_strings_in_slices.simps [of e i] Let_def clock_reads_log_message)
    next
      case False
      then have ok: "\<not> render_text_fails e ?string" "\<not> create_texture_fails e ?string"
        by simp_all
      have unfold: "print_strings_in_slices e i string_count slice_size y strings color_pair io
          = print_strings_in_slices e (i + 1) string_count slice_size y strings color_pair ?io"
        using True inside ok by (simp add: print_strings_in_slices.simps [of e i] Let_def)
      have "\<exists>code io'. print_strings_in_slices e (i + 1) string_count slice_size y strings
              color_pair ?io = Some (code, io') \<and> clock_reads io' = clock_reads ?io"
        using "1.IH" [OF True inside refl ok refl] "1.prems" by simp
      then show ?thesis
        by (simp add: unfold clock_reads_render_copy)
    qed
  qed
qed

lemma draw_top_bar_returns:
  "\<exists>code io'. draw_top_bar e p io = Some (code, io') \<and> clock_reads io' = clock_reads io"
proof -
  let ?strings = "[GAME_NAME,
    if player_perk p \<noteq> PERK_NONE then get_perk_name e (player_perk p) else ''No Power'',
    ''Lives: '' @ format_d (player_lives p), ''Score: '' @ format_d (player_score p)]"
  let ?y = "c_quotient (get_bar_height io - global_monospaced_font_height io) 2"
  let ?io = "draw_absolute_rectangle 0 0 (get_window_width io) (get_bar_height io)
    (background (COLOR_PAIR_TOP_BAR e)) io"
  have "\<exists>code io'. print_centered_horizontally e ?y 4 ?strings (COLOR_PAIR_TOP_BAR e) ?io
      = Some (code, io') \<and> clock_reads io' = clock_reads ?io"
  proof (cases "?y < 0")
    case True
    then show ?thesis
      by (simp add: print_centered_horizontally_def c_div_def)
  next
    case False
    have "\<exists>code io'. print_strings_in_slices e 0 4
        (c_quotient (get_window_width ?io) 4) ?y ?strings (COLOR_PAIR_TOP_BAR e) ?io
          = Some (code, io') \<and> clock_reads io' = clock_reads ?io"
      by (rule print_strings_in_slices_returns) simp_all
    with False show ?thesis
      by (simp add: print_centered_horizontally_def c_div_def)
  qed
  then obtain code io' where
    "print_centered_horizontally e ?y 4 ?strings (COLOR_PAIR_TOP_BAR e) ?io = Some (code, io')"
    "clock_reads io' = clock_reads io"
    by (auto simp: clock_reads_draw_absolute_rectangle)
  then show ?thesis
    by (simp add: draw_top_bar_def write_top_bar_strings_def TOP_BAR_STRING_COUNT_def Let_def)
qed

lemma clock_reads_draw_bottom_bar:
  "clock_reads (draw_bottom_bar e message' io) = clock_reads io"
  by (simp add: draw_bottom_bar_def write_bottom_bar_string_def Let_def
      clock_reads_print_absolute clock_reads_draw_absolute_rectangle)

lemma top_and_bottom_borders_returns:
  "0 < x_step \<or> full_width \<le> x \<Longrightarrow>
     \<exists>places. top_and_bottom_borders x full_width x_step full_height y_step = Some places"
proof (induction x full_width x_step full_height y_step rule: top_and_bottom_borders.induct)
  case (1 x full_width x_step full_height y_step)
  show ?case
  proof (cases "x < full_width")
    case False
    then show ?thesis by (simp add: top_and_bottom_borders.simps [of x])
  next
    case True
    with "1.prems" have step: "\<not> x_step \<le> 0" by simp
    with True "1.IH" obtain places where
      "top_and_bottom_borders (x + x_step) full_width x_step full_height y_step = Some places"
      by auto
    with True step show ?thesis by (simp add: top_and_bottom_borders.simps [of x])
  qed
qed

lemma left_and_right_borders_returns:
  "0 < y_step \<or> full_height \<le> y \<Longrightarrow>
     \<exists>places. left_and_right_borders y full_height y_step full_width x_step = Some places"
proof (induction y full_height y_step full_width x_step rule: left_and_right_borders.induct)
  case (1 y full_height y_step full_width x_step)
  show ?case
  proof (cases "y < full_height")
    case False
    then show ?thesis by (simp add: left_and_right_borders.simps [of y])
  next
    case True
    with "1.prems" have step: "\<not> y_step \<le> 0" by simp
    with True "1.IH" obtain places where
      "left_and_right_borders (y + y_step) full_height y_step full_width x_step = Some places"
      by auto
    with True step show ?thesis by (simp add: left_and_right_borders.simps [of y])
  qed
qed

lemma positive_step_or_empty:
  fixes k step :: int
  assumes "1 \<le> k"
  shows "0 < step \<or> k * step \<le> 0"
proof (cases "0 < step")
  case True
  then show ?thesis by simp
next
  case False
  then have "step \<le> 0" by simp
  with assms have "k * step \<le> 0" by (simp add: mult_le_0_iff)
  then show ?thesis by simp
qed

lemma cache_borders_texture_returns:
  assumes "get_columns e \<noteq> 0" "get_lines e \<noteq> 0"
  shows "\<exists>code io'. cache_borders_texture e borders io = Some (code, io')
    \<and> clock_reads io' = clock_reads io"
proof -
  let ?x_step = "c_quotient (window_width io) (get_columns e)"
  let ?y_step = "c_quotient (window_height io - bar_height io) (get_lines e)"
  let ?full_width = "(max_x borders - min_x borders + 1) * ?x_step"
  let ?full_height = "(max_y borders - min_y borders + 1) * ?y_step"
  consider (cached) "borders_texture io \<noteq> None"
    | (invalid) "borders_texture io = None"
        "min_x borders < 0 \<or> min_y borders < 0 \<or> min_x borders > max_x borders
          \<or> min_y borders > max_y borders"
    | (failed) "borders_texture io = None"
        "\<not> (min_x borders < 0 \<or> min_y borders < 0 \<or> min_x borders > max_x borders
          \<or> min_y borders > max_y borders)" "create_target_texture_fails e"
    | (drawn) "borders_texture io = None"
        "\<not> (min_x borders < 0 \<or> min_y borders < 0 \<or> min_x borders > max_x borders
          \<or> min_y borders > max_y borders)" "\<not> create_target_texture_fails e"
    by fastforce
  then show ?thesis
  proof cases
    case cached
    with assms show ?thesis
      by (simp add: cache_borders_texture_def get_tile_width_Some get_tile_height_Some Let_def)
  next
    case invalid
    with assms show ?thesis
      by (simp add: cache_borders_texture_def get_tile_width_Some get_tile_height_Some Let_def
          clock_reads_log_message)
  next
    case failed
    with assms show ?thesis
      by (simp add: cache_borders_texture_def get_tile_width_Some get_tile_height_Some Let_def
          clock_reads_log_message)
  next
    case drawn
    from drawn(2) have "0 < ?x_step \<or> ?full_width \<le> 0"
      by (intro positive_step_or_empty) simp
    then obtain horizontal where
      h: "top_and_bottom_borders 0 ?full_width ?x_step ?full_height ?y_step = Some horizontal"
      using top_and_bottom_borders_returns by blast
    from drawn(2) have "0 < ?y_step \<or> ?full_height \<le> 0"
      by (intro positive_step_or_empty) simp
    then obtain vertical where
      v: "left_and_right_borders 0 ?full_height ?y_step ?full_width ?x_step = Some vertical"
      using left_and_right_borders_returns by blast
    from drawn assms h v show ?thesis
      by (simp add: cache_borders_texture_def get_tile_width_Some get_tile_height_Some Let_def)
  qed
qed

lemma draw_borders_returns:
  assumes "get_columns e \<noteq> 0" "get_lines e \<noteq> 0"
  shows "\<exists>io'. draw_borders e io = Some io' \<and> clock_reads io' = clock_reads io"
proof -
  let ?borders = "\<lparr>min_x = 0, max_x = get_columns e - 1, min_y = 0, max_y = get_lines e - 1\<rparr>"
  have "\<exists>io'. (if borders_texture io = None
        then map_option snd (cache_borders_texture e ?borders io) else Some io) = Some io'
      \<and> clock_reads io' = clock_reads io"
    using cache_borders_texture_returns [OF assms, of ?borders io] by auto
  then obtain io' where cached: "(if borders_texture io = None
        then map_option snd (cache_borders_texture e ?borders io) else Some io) = Some io'"
    and clock: "clock_reads io' = clock_reads io"
    by blast
  have "\<exists>code io''. render_borders e ?borders io = Some (code, io'')
      \<and> clock_reads io'' = clock_reads io"
    using assms cached clock
    by (cases "borders_texture io'")
      (simp_all add: render_borders_def get_tile_width_Some get_tile_height_Some
        clock_reads_render_copy del: map_option_eq_Some)
  then show ?thesis
    by (auto simp: draw_borders_def)
qed

lemma draw_platforms_returns:
  assumes "get_columns e \<noteq> 0" "get_lines e \<noteq> 0"
  shows "\<exists>code io'. draw_platforms e ps bounds io = Some (code, io')
    \<and> clock_reads io' = clock_reads io"
proof (induction ps arbitrary: io)
  case Nil
  show ?case by simp
next
  case (Cons p ps)
  let ?x = "max (min_x bounds) (platform_x p)"
  let ?w = "min (max_x bounds) (platform_x p + platform_width p - 1) - ?x + 1"
  from draw_rectangle_returns [OF assms]
  obtain io1 where one: "draw_rectangle e ?x (platform_y p) ?w 1
      (foreground (COLOR_PAIR_PLATFORM e)) io = Some io1"
    and clock: "clock_reads io1 = clock_reads io"
    by blast
  from Cons.IH [of io1] obtain code io' where
    "draw_platforms e ps bounds io1 = Some (code, io')" "clock_reads io' = clock_reads io1"
    by blast
  with one clock show ?case by (simp add: Let_def)
qed

lemma draw_perk_returns:
  assumes "get_columns e \<noteq> 0" "get_lines e \<noteq> 0"
  shows "\<exists>code io'. draw_perk e g io = Some (code, io') \<and> clock_reads io' = clock_reads io"
proof (cases "has_active_perk g")
  case True
  from draw_rectangle_returns [OF assms]
  obtain io' where "draw_rectangle e (perk_x g) (perk_y g) 1 1
      (background (COLOR_PAIR_PERK e)) io = Some io'" "clock_reads io' = clock_reads io"
    by blast
  with True show ?thesis by (simp add: draw_perk_def)
next
  case False
  then show ?thesis by (simp add: draw_perk_def)
qed

lemma draw_player_returns:
  assumes "get_columns e \<noteq> 0" "get_lines e \<noteq> 0"
  shows "\<exists>code io'. draw_player e p io = Some (code, io') \<and> clock_reads io' = clock_reads io"
proof -
  from draw_rectangle_returns [OF assms]
  obtain io' where "draw_rectangle e (player_x p) (player_y p) 1 1
      (foreground (COLOR_PAIR_PLAYER e)) io = Some io'" "clock_reads io' = clock_reads io"
    by blast
  then show ?thesis by (simp add: draw_player_def)
qed

text \<open>
  A bracketed step that returns without reading the clock leaves the game as it is and
  takes two readings.
\<close>

lemma profiled_returns:
  assumes "\<And>io1. \<exists>io2. call io1 = Some io2 \<and> clock_reads io2 = clock_reads io1"
  shows "\<exists>w'. profiled e name' call w = Some w' \<and> the_game w' = the_game w
    \<and> clock_reads (the_io w') = clock_reads (the_io w) + 2"
proof -
  let ?io1 = "(the_io w)\<lparr>clock_reads := Suc (clock_reads (the_io w))\<rparr>"
  from assms [of ?io1] obtain io2 where
    call: "call ?io1 = Some io2" and clock: "clock_reads io2 = clock_reads ?io1"
    by blast
  then show ?thesis
    by (simp add: profiled_def get_milliseconds_def update_profiler_def)
qed
text \<open>
  C8: \<^verbatim>\<open>draw_game\<close> returns (given numbers of columns and of lines that are not zero, which
  the tile size is divided by), every field of the game it was given is unchanged when it
  does, and its result is the last reading of the clock minus the first one, the nineteenth
  minus the first of the readings it takes.
\<close>

theorem draw_game_leaves_game_unchanged:
  assumes "get_columns e \<noteq> 0" "get_lines e \<noteq> 0"
  shows "\<exists>w'. draw_game e w =
           Some (clock_reading e (clock_reads (the_io w) + 18)
                   - clock_reading e (clock_reads (the_io w)), w')
         \<and> the_game w' = the_game w"
proof -
  let ?c = "clock_reads (the_io w)"
  let ?w0 = "w\<lparr>the_io := (the_io w)\<lparr>clock_reads := Suc ?c\<rparr>\<rparr>"
  have "\<And>io1. \<exists>io2. Some (clear io1) = Some io2 \<and> clock_reads io2 = clock_reads io1"
    by (simp add: clear_def clock_reads_render)
  from profiled_returns [of "\<lambda>io. Some (clear io)", OF this, of e "''draw_game:clear''" ?w0]
  obtain w1 where s1: "profiled e ''draw_game:clear'' (\<lambda>io. Some (clear io)) ?w0 = Some w1"
    and g1: "the_game w1 = the_game w" and c1: "clock_reads (the_io w1) = ?c + 3"
    by auto
  have "\<And>io1. \<exists>io2. map_option snd (draw_top_bar e (player (the_game w1)) io1) = Some io2
      \<and> clock_reads io2 = clock_reads io1"
    using draw_top_bar_returns by (metis option.simps(9) snd_conv)
  from profiled_returns [of "\<lambda>io. map_option snd (draw_top_bar e (player (the_game w1)) io)",
      OF this, of e "''draw_game:draw_top_bar''" w1]
  obtain w2 where s2: "profiled e ''draw_game:draw_top_bar''
      (\<lambda>io. map_option snd (draw_top_bar e (player (the_game w1)) io)) w1 = Some w2"
    and g2: "the_game w2 = the_game w" and c2: "clock_reads (the_io w2) = ?c + 5"
    using g1 c1 by auto
  have "\<And>io1. \<exists>io2. Some (draw_bottom_bar e (message (the_game w2)) io1) = Some io2
      \<and> clock_reads io2 = clock_reads io1"
    by (simp add: clock_reads_draw_bottom_bar)
  from profiled_returns [of "\<lambda>io. Some (draw_bottom_bar e (message (the_game w2)) io)",
      OF this, of e "''draw_game:draw_bottom_bar''" w2]
  obtain w3 where s3: "profiled e ''draw_game:draw_bottom_bar''
      (\<lambda>io. Some (draw_bottom_bar e (message (the_game w2)) io)) w2 = Some w3"
    and g3: "the_game w3 = the_game w" and c3: "clock_reads (the_io w3) = ?c + 7"
    using g2 c2 by auto
  have "\<And>io1. \<exists>io2. draw_borders e io1 = Some io2 \<and> clock_reads io2 = clock_reads io1"
    using draw_borders_returns [OF assms] by blast
  from profiled_returns [of "draw_borders e", OF this, of e "''draw_game:draw_borders''" w3]
  obtain w4 where s4: "profiled e ''draw_game:draw_borders'' (draw_borders e) w3 = Some w4"
    and g4: "the_game w4 = the_game w" and c4: "clock_reads (the_io w4) = ?c + 9"
    using g3 c3 by auto
  have "\<And>io1. \<exists>io2. map_option snd
        (draw_platforms e (platforms (the_game w4)) (box (the_game w4)) io1) = Some io2
      \<and> clock_reads io2 = clock_reads io1"
    using draw_platforms_returns [OF assms] by (metis option.simps(9) snd_conv)
  from profiled_returns [of "\<lambda>io. map_option snd
        (draw_platforms e (platforms (the_game w4)) (box (the_game w4)) io)",
      OF this, of e "''draw_game:draw_platforms''" w4]
  obtain w5 where s5: "profiled e ''draw_game:draw_platforms''
      (\<lambda>io. map_option snd
         (draw_platforms e (platforms (the_game w4)) (box (the_game w4)) io)) w4 = Some w5"
    and g5: "the_game w5 = the_game w" and c5: "clock_reads (the_io w5) = ?c + 11"
    using g4 c4 by auto
  have "\<And>io1. \<exists>io2. map_option snd (draw_perk e (the_game w5) io1) = Some io2
      \<and> clock_reads io2 = clock_reads io1"
    using draw_perk_returns [OF assms] by (metis option.simps(9) snd_conv)
  from profiled_returns [of "\<lambda>io. map_option snd (draw_perk e (the_game w5) io)",
      OF this, of e "''draw_game:draw_perk''" w5]
  obtain w6 where s6: "profiled e ''draw_game:draw_perk''
      (\<lambda>io. map_option snd (draw_perk e (the_game w5) io)) w5 = Some w6"
    and g6: "the_game w6 = the_game w" and c6: "clock_reads (the_io w6) = ?c + 13"
    using g5 c5 by auto
  have "\<And>io1. \<exists>io2. map_option snd (draw_player e (player (the_game w6)) io1) = Some io2
      \<and> clock_reads io2 = clock_reads io1"
    using draw_player_returns [OF assms] by (metis option.simps(9) snd_conv)
  from profiled_returns [of "\<lambda>io. map_option snd (draw_player e (player (the_game w6)) io)",
      OF this, of e "''draw_game:draw_player''" w6]
  obtain w7 where s7: "profiled e ''draw_game:draw_player''
      (\<lambda>io. map_option snd (draw_player e (player (the_game w6)) io)) w6 = Some w7"
    and g7: "the_game w7 = the_game w" and c7: "clock_reads (the_io w7) = ?c + 15"
    using g6 c6 by auto
  have "\<And>io1. \<exists>io2. Some (present io1) = Some io2 \<and> clock_reads io2 = clock_reads io1"
    by (simp add: present_def clock_reads_render)
  from profiled_returns [of "\<lambda>io. Some (present io)", OF this, of e "''draw_game:present''" w7]
  obtain w8 where s8: "profiled e ''draw_game:present'' (\<lambda>io. Some (present io)) w7 = Some w8"
    and g8: "the_game w8 = the_game w" and c8: "clock_reads (the_io w8) = ?c + 17"
    using g7 c7 by auto
  show ?thesis
    by (simp add: draw_game_def get_milliseconds_def update_profiler_def
        s1 s2 s3 s4 s5 s6 s7 s8 g8 c8 add.commute)
qed

theorem draw_game_leaves_game_unchanged_witness:
  "get_columns sample_environment \<noteq> 0 \<and> get_lines sample_environment \<noteq> 0
   \<and> (\<exists>w'. draw_game sample_environment sample_world = Some (54, w')
         \<and> the_game w' = the_game sample_world)"
proof -
  have h: "get_columns sample_environment \<noteq> 0" "get_lines sample_environment \<noteq> 0"
    by (simp_all add: sample_environment_def)
  have "clock_reading sample_environment (clock_reads (the_io sample_world) + 18)
      - clock_reading sample_environment (clock_reads (the_io sample_world)) = 54"
    by (simp add: sample_environment_def sample_world_def sample_io_state_def)
  with draw_game_leaves_game_unchanged [OF h, of sample_world] h show ?thesis
    by simp
qed

lemma draw_game_sample_run:
  "map_option fst (draw_game sample_environment sample_world) = Some 54"
  by code_simp

subsection \<open>The rigid matrix counts the platforms\<close>

lemma rigid_matrix_offset_less:
  assumes "matrix_fits_box g" "in_box (box g) x y"
  shows "rigid_matrix_offset g x y < length (rigid_matrix g)"
proof -
  let ?a = "nat (y - min_y (box g))" and ?b = "nat (x - min_x (box g))"
  let ?n = "rigid_matrix_n g" and ?m = "rigid_matrix_m g"
  from assms have a: "?a < ?n" and b: "?b < ?m"
    by (auto simp: matrix_fits_box_def in_box_def)
  have "?a * ?m + ?b < ?a * ?m + ?m" using b by simp
  also have "\<dots> = Suc ?a * ?m" by simp
  also have "\<dots> \<le> ?n * ?m" using a by (intro mult_le_mono1) simp
  finally show ?thesis
    using assms(1) by (simp add: rigid_matrix_offset_def matrix_fits_box_def)
qed

lemma rigid_matrix_offset_inj:
  assumes "matrix_fits_box g" "in_box (box g) x y" "in_box (box g) x' y'"
    and "rigid_matrix_offset g x y = rigid_matrix_offset g x' y'"
  shows "x = x' \<and> y = y'"
proof -
  let ?m = "rigid_matrix_m g"
  let ?a = "nat (y - min_y (box g))" and ?b = "nat (x - min_x (box g))"
  let ?a' = "nat (y' - min_y (box g))" and ?b' = "nat (x' - min_x (box g))"
  from assms(1-3) have b: "?b < ?m" and b': "?b' < ?m"
    by (auto simp: matrix_fits_box_def in_box_def)
  from assms(4) have eq: "?a * ?m + ?b = ?a' * ?m + ?b'"
    by (simp add: rigid_matrix_offset_def)
  have "(?a * ?m + ?b) div ?m = ?a" "(?a * ?m + ?b) mod ?m = ?b"
    using b by simp_all
  moreover have "(?a' * ?m + ?b') div ?m = ?a'" "(?a' * ?m + ?b') mod ?m = ?b'"
    using b' by simp_all
  ultimately have "?a = ?a'" "?b = ?b'"
    using eq by simp_all
  with assms(2,3) show ?thesis
    by (auto simp: in_box_def)
qed

lemma rigid_matrix_offset_update:
  "rigid_matrix_offset (g\<lparr>rigid_matrix := ms\<rparr>) x y = rigid_matrix_offset g x y"
  by (simp add: rigid_matrix_offset_def)

text \<open>What a change of one counter does to the counter read at a cell of the box.\<close>

lemma modify_rigid_matrix_point_frame:
  "box (modify_rigid_matrix_point g x y delta) = box g"
  "platforms (modify_rigid_matrix_point g x y delta) = platforms g"
  "matrix_fits_box g \<Longrightarrow> matrix_fits_box (modify_rigid_matrix_point g x y delta)"
  by (simp_all add: modify_rigid_matrix_point_def matrix_fits_box_def)

lemma get_modify_rigid_matrix_point:
  assumes "matrix_fits_box g" "in_box (box g) x y"
  shows "get_from_rigid_matrix (modify_rigid_matrix_point g x' y' delta) x y
    = get_from_rigid_matrix g x y + (if x = x' \<and> y = y' then delta else 0)"
proof (cases "in_box (box g) x' y'")
  case False
  with assms(2) have "\<not> (x = x' \<and> y = y')" by auto
  with False show ?thesis
    by (auto simp: modify_rigid_matrix_point_def)
next
  case True
  note off = rigid_matrix_offset_update
  show ?thesis
  proof (cases "x = x' \<and> y = y'")
    case same: True
    with assms True show ?thesis
      using rigid_matrix_offset_less [OF assms]
      by (simp add: modify_rigid_matrix_point_def get_from_rigid_matrix_def off)
  next
    case False
    then have "rigid_matrix_offset g x' y' \<noteq> rigid_matrix_offset g x y"
      using rigid_matrix_offset_inj [OF assms(1) True assms(2)] by auto
    with assms True False show ?thesis
      by (auto simp: modify_rigid_matrix_point_def get_from_rigid_matrix_def off)
  qed
qed

lemma modify_points_frame:
  "box (fold (\<lambda>i g'. modify_rigid_matrix_point g' (px + int i) py delta) is g) = box g
   \<and> platforms (fold (\<lambda>i g'. modify_rigid_matrix_point g' (px + int i) py delta) is g)
       = platforms g
   \<and> (matrix_fits_box g \<longrightarrow>
        matrix_fits_box (fold (\<lambda>i g'. modify_rigid_matrix_point g' (px + int i) py delta) is g))"
  by (induction "is" arbitrary: g) (simp_all add: modify_rigid_matrix_point_frame)

lemma get_modify_points:
  assumes "matrix_fits_box g" "in_box (box g) x y"
  shows "get_from_rigid_matrix
      (fold (\<lambda>i g'. modify_rigid_matrix_point g' (px + int i) py delta) [0..<k] g) x y
    = get_from_rigid_matrix g x y
      + (if y = py \<and> px \<le> x \<and> x < px + int k then delta else 0)"
proof (induction k)
  case 0
  show ?case by auto
next
  case (Suc k)
  let ?g = "fold (\<lambda>i g'. modify_rigid_matrix_point g' (px + int i) py delta) [0..<k] g"
  have fits: "matrix_fits_box ?g" and inb: "in_box (box ?g) x y"
    using assms modify_points_frame [of px py delta "[0..<k]" g] by simp_all
  have "get_from_rigid_matrix (modify_rigid_matrix_point ?g (px + int k) py delta) x y
      = get_from_rigid_matrix ?g x y + (if x = px + int k \<and> y = py then delta else 0)"
    using fits inb by (rule get_modify_rigid_matrix_point)
  with Suc show ?case by auto
qed

lemma modify_rigid_matrix_platform_frame:
  "box (modify_rigid_matrix_platform g p delta) = box g"
  "platforms (modify_rigid_matrix_platform g p delta) = platforms g"
  "matrix_fits_box g \<Longrightarrow> matrix_fits_box (modify_rigid_matrix_platform g p delta)"
  using modify_points_frame [of "platform_x p" "platform_y p" delta "[0..<nat (platform_width p)]" g]
  by (simp_all add: modify_rigid_matrix_platform_def)

lemma get_modify_rigid_matrix_platform:
  assumes "matrix_fits_box g" "in_box (box g) x y"
  shows "get_from_rigid_matrix (modify_rigid_matrix_platform g p delta) x y
    = get_from_rigid_matrix g x y + (if covers p x y then delta else 0)"
proof -
  have "(y = platform_y p \<and> platform_x p \<le> x \<and> x < platform_x p + int (nat (platform_width p)))
      \<longleftrightarrow> covers p x y"
    by (auto simp: covers_def)
  with get_modify_points [OF assms, of "platform_x p" "platform_y p" delta "nat (platform_width p)"]
  show ?thesis
    by (simp add: modify_rigid_matrix_platform_def)
qed
text \<open>The sequence of platforms is not read by the matrix functions.\<close>

lemma platforms_update_frame:
  "box (g\<lparr>platforms := ps\<rparr>) = box g"
  "matrix_fits_box (g\<lparr>platforms := ps\<rparr>) = matrix_fits_box g"
  "get_from_rigid_matrix (g\<lparr>platforms := ps\<rparr>) x y = get_from_rigid_matrix g x y"
  by (simp_all add: matrix_fits_box_def get_from_rigid_matrix_def rigid_matrix_offset_def)

lemma count_without:
  assumes "i < length ps"
  shows "length (filter P (take i ps @ drop (Suc i) ps)) + (if P (ps ! i) then 1 else 0)
    = length (filter P ps)"
proof -
  have "ps = take i ps @ ps ! i # drop (Suc i) ps"
    using assms by (rule id_take_nth_drop)
  then have "length (filter P ps)
      = length (filter P (take i ps @ ps ! i # drop (Suc i) ps))"
    by simp
  then show ?thesis by simp
qed

lemma count_moved:
  assumes "i < length ps"
  shows "length (filter P (ps[i := q])) + (if P (ps ! i) then 1 else 0)
    = length (filter P ps) + (if P q then 1 else 0)"
proof -
  have "ps[i := q] = take i ps @ q # drop (Suc i) ps"
    using assms by (rule upd_conv_take_nth_drop)
  then have "length (filter P (ps[i := q]))
      = length (filter P (take i ps @ drop (Suc i) ps)) + (if P q then 1 else 0)"
    by simp
  with count_without [OF assms, of P] show ?thesis by simp
qed

lemma freshly_created_counts: "freshly_created g \<Longrightarrow> counts_platforms g"
proof -
  assume fresh: "freshly_created g"
  then have fits: "matrix_fits_box g"
    by (simp add: freshly_created_def matrix_fits_box_def)
  have "get_from_rigid_matrix g x y = of_nat (covering_platforms g x y)"
    if "in_box (box g) x y" for x y
  proof -
    have "rigid_matrix_offset g x y < rigid_matrix_size g"
      using rigid_matrix_offset_less [OF fits that] fresh by (simp add: freshly_created_def)
    with fresh that show ?thesis
      by (simp add: get_from_rigid_matrix_def covering_platforms_def freshly_created_def)
  qed
  with fits show ?thesis by (simp add: counts_platforms_def)
qed

lemma spawn_platform_counts:
  assumes "counts_platforms g"
  shows "counts_platforms (spawn_platform capacity p g)"
proof (cases "length (platforms g) < capacity")
  case False
  with assms show ?thesis by (simp add: spawn_platform_def)
next
  case True
  let ?g1 = "g\<lparr>platforms := platforms g @ [p]\<rparr>"
  let ?g2 = "modify_rigid_matrix_platform ?g1 p 1"
  from assms have fits: "matrix_fits_box ?g1"
    by (simp add: counts_platforms_def platforms_update_frame)
  have fits2: "matrix_fits_box ?g2"
    using fits by (rule modify_rigid_matrix_platform_frame)
  have "get_from_rigid_matrix ?g2 x y = of_nat (covering_platforms ?g2 x y)"
    if "in_box (box ?g2) x y" for x y
  proof -
    from that have inb: "in_box (box g) x y" "in_box (box ?g1) x y"
      by (simp_all add: modify_rigid_matrix_platform_frame)
    have "get_from_rigid_matrix ?g2 x y
        = get_from_rigid_matrix g x y + (if covers p x y then 1 else 0)"
      using get_modify_rigid_matrix_platform [OF fits inb(2), of p 1]
      by (simp add: platforms_update_frame)
    moreover have "get_from_rigid_matrix g x y = of_nat (covering_platforms g x y)"
      using assms inb(1) by (simp add: counts_platforms_def)
    moreover have "covering_platforms ?g2 x y
        = covering_platforms g x y + (if covers p x y then 1 else 0)"
      by (simp add: covering_platforms_def modify_rigid_matrix_platform_frame)
    ultimately show ?thesis by simp
  qed
  with fits2 True show ?thesis
    by (simp add: counts_platforms_def spawn_platform_def)
qed

lemma despawn_platform_counts:
  assumes "counts_platforms g"
  shows "counts_platforms (despawn_platform i g)"
proof (cases "i < length (platforms g)")
  case False
  with assms show ?thesis by (simp add: despawn_platform_def)
next
  case True
  let ?old = "platforms g ! i"
  let ?g1 = "modify_rigid_matrix_platform g ?old (- 1)"
  let ?g2 = "?g1\<lparr>platforms := take i (platforms ?g1) @ drop (Suc i) (platforms ?g1)\<rparr>"
  from assms have fits: "matrix_fits_box g"
    by (simp add: counts_platforms_def)
  have fits2: "matrix_fits_box ?g2"
    using fits by (simp add: platforms_update_frame modify_rigid_matrix_platform_frame)
  have "get_from_rigid_matrix ?g2 x y = of_nat (covering_platforms ?g2 x y)"
    if "in_box (box ?g2) x y" for x y
  proof -
    from that have inb: "in_box (box g) x y"
      by (simp add: modify_rigid_matrix_platform_frame)
    have get: "get_from_rigid_matrix ?g2 x y
        = of_nat (covering_platforms g x y) + (if covers ?old x y then - 1 else 0)"
      using get_modify_rigid_matrix_platform [OF fits inb, of ?old "- 1"] assms inb
      by (simp add: platforms_update_frame counts_platforms_def)
    have "covering_platforms ?g2 x y + (if covers ?old x y then 1 else 0)
        = covering_platforms g x y"
      using count_without [OF True, of "\<lambda>p. covers p x y"]
      by (simp add: covering_platforms_def modify_rigid_matrix_platform_frame)
    then have "(of_nat (covering_platforms g x y) :: 8 word)
        = of_nat (covering_platforms ?g2 x y + (if covers ?old x y then 1 else 0))"
      by (rule arg_cong [OF sym])
    then have "(of_nat (covering_platforms g x y) :: 8 word)
        = of_nat (covering_platforms ?g2 x y) + (if covers ?old x y then 1 else 0)"
      by (simp split: if_splits)
    with get show ?thesis by simp
  qed
  with fits2 True show ?thesis
    by (simp add: counts_platforms_def despawn_platform_def Let_def)
qed

lemma move_platform_counts:
  assumes "counts_platforms g"
  shows "counts_platforms (move_platform i new_x g)"
proof (cases "i < length (platforms g)")
  case False
  with assms show ?thesis by (simp add: move_platform_def)
next
  case True
  let ?old = "platforms g ! i"
  let ?new = "?old\<lparr>platform_x := new_x\<rparr>"
  let ?g1 = "modify_rigid_matrix_platform g ?old (- 1)"
  let ?g2 = "?g1\<lparr>platforms := (platforms ?g1)[i := ?new]\<rparr>"
  let ?g3 = "modify_rigid_matrix_platform ?g2 ?new 1"
  from assms have fits: "matrix_fits_box g"
    by (simp add: counts_platforms_def)
  have fits2: "matrix_fits_box ?g2"
    using fits by (simp add: platforms_update_frame modify_rigid_matrix_platform_frame)
  have fits3: "matrix_fits_box ?g3"
    using fits2 by (rule modify_rigid_matrix_platform_frame)
  have "get_from_rigid_matrix ?g3 x y = of_nat (covering_platforms ?g3 x y)"
    if "in_box (box ?g3) x y" for x y
  proof -
    from that have inb: "in_box (box g) x y" and inb2: "in_box (box ?g2) x y"
      by (simp_all add: modify_rigid_matrix_platform_frame)
    have "get_from_rigid_matrix ?g3 x y
        = get_from_rigid_matrix ?g2 x y + (if covers ?new x y then 1 else 0)"
      using fits2 inb2 by (rule get_modify_rigid_matrix_platform)
    moreover have "get_from_rigid_matrix ?g2 x y
        = of_nat (covering_platforms g x y) + (if covers ?old x y then - 1 else 0)"
      using get_modify_rigid_matrix_platform [OF fits inb, of ?old "- 1"] assms inb
      by (simp add: platforms_update_frame counts_platforms_def)
    ultimately have get: "get_from_rigid_matrix ?g3 x y
        = of_nat (covering_platforms g x y) + (if covers ?old x y then - 1 else 0)
          + (if covers ?new x y then 1 else 0)"
      by simp
    have "covering_platforms ?g3 x y + (if covers ?old x y then 1 else 0)
        = covering_platforms g x y + (if covers ?new x y then 1 else 0)"
      using count_moved [OF True, of "\<lambda>p. covers p x y" ?new]
      by (simp add: covering_platforms_def modify_rigid_matrix_platform_frame)
    then have "(of_nat (covering_platforms ?g3 x y + (if covers ?old x y then 1 else 0)) :: 8 word)
        = of_nat (covering_platforms g x y + (if covers ?new x y then 1 else 0))"
      by (rule arg_cong)
    then have "(of_nat (covering_platforms ?g3 x y) :: 8 word)
          + (if covers ?old x y then 1 else 0)
        = of_nat (covering_platforms g x y) + (if covers ?new x y then 1 else 0)"
      by (simp split: if_splits)
    with get show ?thesis
      by (simp add: algebra_simps split: if_splits)
  qed
  with fits3 True show ?thesis
    by (simp add: counts_platforms_def move_platform_def Let_def)
qed

lemma apply_platform_event_counts:
  "counts_platforms g \<Longrightarrow> counts_platforms (apply_platform_event capacity event g)"
  by (cases event)
    (simp_all add: spawn_platform_counts move_platform_counts despawn_platform_counts)

lemma apply_platform_events_keep_counting:
  "counts_platforms g \<Longrightarrow> counts_platforms (apply_platform_events capacity events g)"
  unfolding apply_platform_events_def
  by (induction events arbitrary: g) (simp_all add: apply_platform_event_counts)

text \<open>
  C1, as stated, fails: the counters are bytes. After 256 spawns of a platform on the cell
  \<open>(0, 0)\<close> of a freshly created game, with room for them in the sequence, all 256
  platforms are live and cover the cell, and the counter of the cell reads 0.
\<close>

theorem rigid_matrix_counter_wraps:
  "freshly_created sample_game
   \<and> in_box (box (apply_platform_events 256
        (replicate 256 (Spawn \<lparr>platform_x = 0, platform_y = 0, platform_width = 1\<rparr>))
        sample_game)) 0 0
   \<and> covering_platforms (apply_platform_events 256
        (replicate 256 (Spawn \<lparr>platform_x = 0, platform_y = 0, platform_width = 1\<rparr>))
        sample_game) 0 0 = 256
   \<and> get_from_rigid_matrix (apply_platform_events 256
        (replicate 256 (Spawn \<lparr>platform_x = 0, platform_y = 0, platform_width = 1\<rparr>))
        sample_game) 0 0 = 0"
proof -
  let ?p = "\<lparr>platform_x = 0, platform_y = 0, platform_width = 1\<rparr>"
  let ?g = "apply_platform_events 256 (replicate 256 (Spawn ?p)) sample_game"
  have spawned: "length (platforms g) + n \<le> 256 \<Longrightarrow>
      platforms (apply_platform_events 256 (replicate n (Spawn ?p)) g) = platforms g @ replicate n ?p
      \<and> box (apply_platform_events 256 (replicate n (Spawn ?p)) g) = box g" for n g
  proof (induction n arbitrary: g)
    case 0
    show ?case by (simp add: apply_platform_events_def)
  next
    case (Suc n)
    let ?g1 = "spawn_platform 256 ?p g"
    from Suc.prems have one: "platforms ?g1 = platforms g @ [?p]" and b: "box ?g1 = box g"
      by (simp_all add: spawn_platform_def modify_rigid_matrix_platform_frame)
    with Suc.prems have "length (platforms ?g1) + n \<le> 256" by simp
    from Suc.IH [OF this] one b show ?case
      by (simp add: apply_platform_events_def replicate_app_Cons_same)
  qed
  have fresh: "freshly_created sample_game"
    by (simp add: freshly_created_def sample_game_def numeral_eq_Suc)
  have "length (platforms sample_game) + 256 \<le> 256"
    by (simp add: sample_game_def)
  from spawned [OF this]
  have ps: "platforms ?g = replicate 256 ?p" and bx: "box ?g = box sample_game"
    by (simp_all add: sample_game_def)
  have inb: "in_box (box ?g) 0 0"
    by (simp only: bx) (simp add: in_box_def sample_game_def)
  have cov: "covering_platforms ?g 0 0 = 256"
    by (simp only: covering_platforms_def ps) (simp add: covers_def)
  have "counts_platforms ?g"
    using fresh by (intro apply_platform_events_keep_counting freshly_created_counts)
  with inb have "get_from_rigid_matrix ?g 0 0 = of_nat (covering_platforms ?g 0 0)"
    by (simp add: counts_platforms_def)
  then have "get_from_rigid_matrix ?g 0 0 = 0"
    by (simp only: cov) simp
  with fresh inb cov show ?thesis by (intro conjI)
qed

text \<open>
  C1, amended: in every state that a freshly created game reaches by spawns, moves and
  despawns of platforms, each with its calls of \<^verbatim>\<open>modify_rigid_matrix_platform\<close>, the counter
  that \<^verbatim>\<open>get_from_rigid_matrix\<close> reads at a cell of the bounding box is the number of
  platforms of the sequence that cover the cell, modulo 256; it is that number itself
  whenever fewer than 256 platforms cover the cell. No counter is negative.
\<close>

theorem rigid_matrix_counts_platforms_modulo_256:
  assumes "freshly_created g0"
  shows "(\<forall>x y. in_box (box (apply_platform_events capacity events g0)) x y \<longrightarrow>
            unat (get_from_rigid_matrix (apply_platform_events capacity events g0) x y)
              = covering_platforms (apply_platform_events capacity events g0) x y mod 256
            \<and> (covering_platforms (apply_platform_events capacity events g0) x y < 256 \<longrightarrow>
                 unat (get_from_rigid_matrix (apply_platform_events capacity events g0) x y)
                   = covering_platforms (apply_platform_events capacity events g0) x y))
    \<and> (\<forall>c \<in> set (rigid_matrix (apply_platform_events capacity events g0)). 0 \<le> uint c)"
proof -
  let ?g = "apply_platform_events capacity events g0"
  have inv: "counts_platforms ?g"
    using assms by (intro apply_platform_events_keep_counting freshly_created_counts)
  have "unat (get_from_rigid_matrix ?g x y) = covering_platforms ?g x y mod 256
      \<and> (covering_platforms ?g x y < 256 \<longrightarrow>
            unat (get_from_rigid_matrix ?g x y) = covering_platforms ?g x y)"
    if "in_box (box ?g) x y" for x y
  proof -
    have "get_from_rigid_matrix ?g x y = of_nat (covering_platforms ?g x y)"
      using inv that by (simp add: counts_platforms_def)
    then have "unat (get_from_rigid_matrix ?g x y) = covering_platforms ?g x y mod 2 ^ 8"
      by (simp only: unat_of_nat) simp
    then show ?thesis by simp
  qed
  then show ?thesis by simp
qed

theorem rigid_matrix_counts_platforms_modulo_256_witness:
  "freshly_created sample_game
   \<and> in_box (box (apply_platform_events 3
        [Spawn \<lparr>platform_x = 1, platform_y = 0, platform_width = 2\<rparr>,
         Spawn \<lparr>platform_x = 2, platform_y = 0, platform_width = 5\<rparr>,
         Spawn \<lparr>platform_x = 0, platform_y = 1, platform_width = 1\<rparr>,
         Move 0 2, Despawn 2] sample_game)) 2 0
   \<and> covering_platforms (apply_platform_events 3
        [Spawn \<lparr>platform_x = 1, platform_y = 0, platform_width = 2\<rparr>,
         Spawn \<lparr>platform_x = 2, platform_y = 0, platform_width = 5\<rparr>,
         Spawn \<lparr>platform_x = 0, platform_y = 1, platform_width = 1\<rparr>,
         Move 0 2, Despawn 2] sample_game) 2 0 = 2
   \<and> unat (get_from_rigid_matrix (apply_platform_events 3
        [Spawn \<lparr>platform_x = 1, platform_y = 0, platform_width = 2\<rparr>,
         Spawn \<lparr>platform_x = 2, platform_y = 0, platform_width = 5\<rparr>,
         Spawn \<lparr>platform_x = 0, platform_y = 1, platform_width = 1\<rparr>,
         Move 0 2, Despawn 2] sample_game) 2 0) = 2
   \<and> rigid_matrix (apply_platform_events 3
        [Spawn \<lparr>platform_x = 1, platform_y = 0, platform_width = 2\<rparr>,
         Spawn \<lparr>platform_x = 2, platform_y = 0, platform_width = 5\<rparr>,
         Spawn \<lparr>platform_x = 0, platform_y = 1, platform_width = 1\<rparr>,
         Move 0 2, Despawn 2] sample_game) = [0, 0, 2, 2, 0, 0, 0, 0]"
proof -
  let ?events = "[Spawn \<lparr>platform_x = 1, platform_y = 0, platform_width = 2\<rparr>,
         Spawn \<lparr>platform_x = 2, platform_y = 0, platform_width = 5\<rparr>,
         Spawn \<lparr>platform_x = 0, platform_y = 1, platform_width = 1\<rparr>,
         Move 0 2, Despawn 2]"
  have h: "freshly_created sample_game"
    by (simp add: freshly_created_def sample_game_def numeral_eq_Suc)
  have b: "in_box (box (apply_platform_events 3 ?events sample_game)) 2 0"
    by code_simp
  have c: "covering_platforms (apply_platform_events 3 ?events sample_game) 2 0 = 2"
    by code_simp
  have m: "rigid_matrix (apply_platform_events 3 ?events sample_game) = [0, 0, 2, 2, 0, 0, 0, 0]"
    by code_simp
  from rigid_matrix_counts_platforms_modulo_256 [OF h, of 3 ?events] b
  have "covering_platforms (apply_platform_events 3 ?events sample_game) 2 0 < 256 \<longrightarrow>
     unat (get_from_rigid_matrix (apply_platform_events 3 ?events sample_game) 2 0)
     = covering_platforms (apply_platform_events 3 ?events sample_game) 2 0"
    by blast
  then have "unat (get_from_rigid_matrix (apply_platform_events 3 ?events sample_game) 2 0) = 2"
    by (simp add: c)
  with h b c m show ?thesis by (intro conjI)
qed

subsection \<open>The sampling loop returns\<close>

text \<open>
  The generator has no fixed state other than the all-zero one. A fixed state has its four
  words equal, to a word \<open>v\<close> that solves the equation below; bit by bit that is a system
  of 64 linear equations over the two-element field, and its only solution is zero.
\<close>

lemma upt_blocks:
  "[0..<8] = [0, 1, 2, 3, 4, 5, 6, 7]"
  "[8..<16] = [8, 9, 10, 11, 12, 13, 14, 15]"
  "[16..<24] = [16, 17, 18, 19, 20, 21, 22, 23]"
  "[24..<32] = [24, 25, 26, 27, 28, 29, 30, 31]"
  "[32..<40] = [32, 33, 34, 35, 36, 37, 38, 39]"
  "[40..<48] = [40, 41, 42, 43, 44, 45, 46, 47]"
  "[48..<56] = [48, 49, 50, 51, 52, 53, 54, 55]"
  "[56..<64] = [56, 57, 58, 59, 60, 61, 62, 63]"
  by code_simp+

lemma fixed_word_is_zero:
  fixes v :: U64
  assumes fixed:
    "drop_bit 19 v XOR ((v XOR push_bit 11 v) XOR drop_bit 8 (v XOR push_bit 11 v)) = 0"
  shows "v = 0"
proof -
  have b: "\<not> bit (drop_bit 19 v
      XOR ((v XOR push_bit 11 v) XOR drop_bit 8 (v XOR push_bit 11 v))) n" for n
    by (simp only: fixed) simp
  have e0: "\<not> (bit v 0 \<noteq> (bit v 8 \<noteq> bit v 19))"
    using b [of 0]
    by (auto simp: bit_xor_iff bit_drop_bit_eq bit_push_bit_iff dest: bit_imp_le_length)
  have e1: "\<not> (bit v 1 \<noteq> (bit v 9 \<noteq> bit v 20))"
    using b [of 1]
    by (auto simp: bit_xor_iff bit_drop_bit_eq bit_push_bit_iff dest: bit_imp_le_length)
  have e2: "\<not> (bit v 2 \<noteq> (bit v 10 \<noteq> bit v 21))"
    using b [of 2]
    by (auto simp: bit_xor_iff bit_drop_bit_eq bit_push_bit_iff dest: bit_imp_le_length)
  have e3: "\<not> (bit v 0 \<noteq> (bit v 3 \<noteq> (bit v 11 \<noteq> bit v 22)))"
    using b [of 3]
    by (auto simp: bit_xor_iff bit_drop_bit_eq bit_push_bit_iff dest: bit_imp_le_length)
  have e4: "\<not> (bit v 1 \<noteq> (bit v 4 \<noteq> (bit v 12 \<noteq> bit v 23)))"
    using b [of 4]
    by (auto simp: bit_xor_iff bit_drop_bit_eq bit_push_bit_iff dest: bit_imp_le_length)
  have e5: "\<not> (bit v 2 \<noteq> (bit v 5 \<noteq> (bit v 13 \<noteq> bit v 24)))"
    using b [of 5]
    by (auto simp: bit_xor_iff bit_drop_bit_eq bit_push_bit_iff dest: bit_imp_le_length)
  have e6: "\<not> (bit v 3 \<noteq> (bit v 6 \<noteq> (bit v 14 \<noteq> bit v 25)))"
    using b [of 6]
    by (auto simp: bit_xor_iff bit_drop_bit_eq bit_push_bit_iff dest: bit_imp_le_length)
  have e7: "\<not> (bit v 4 \<noteq> (bit v 7 \<noteq> (bit v 15 \<noteq> bit v 26)))"
    using b [of 7]
    by (auto simp: bit_xor_iff bit_drop_bit_eq bit_push_bit_iff dest: bit_imp_le_length)
  have e8: "\<not> (bit v 5 \<noteq> (bit v 8 \<noteq> (bit v 16 \<noteq> bit v 27)))"
    using b [of 8]
    by (auto simp: bit_xor_iff bit_drop_bit_eq bit_push_bit_iff dest: bit_imp_le_length)
  have e9: "\<not> (bit v 6 \<noteq> (bit v 9 \<noteq> (bit v 17 \<noteq> bit v 28)))"
    using b [of 9]
    by (auto simp: bit_xor_iff bit_drop_bit_eq bit_push_bit_iff dest: bit_imp_le_length)
  have e10: "\<not> (bit v 7 \<noteq> (bit v 10 \<noteq> (bit v 18 \<noteq> bit v 29)))"
    using b [of 10]
    by (auto simp: bit_xor_iff bit_drop_bit_eq bit_push_bit_iff dest: bit_imp_le_length)
  have e11: "\<not> (bit v 0 \<noteq> (bit v 8 \<noteq> (bit v 11 \<noteq> (bit v 19 \<noteq> bit v 30))))"
    using b [of 11]
    by (auto simp: bit_xor_iff bit_drop_bit_eq bit_push_bit_iff dest: bit_imp_le_length)
  have e12: "\<not> (bit v 1 \<noteq> (bit v 9 \<noteq> (bit v 12 \<noteq> (bit v 20 \<noteq> bit v 31))))"
    using b [of 12]
    by (auto simp: bit_xor_iff bit_drop_bit_eq bit_push_bit_iff dest: bit_imp_le_length)
  have e13: "\<not> (bit v 2 \<noteq> (bit v 10 \<noteq> (bit v 13 \<noteq> (bit v 21 \<noteq> bit v 32))))"
    using b [of 13]
    by (auto simp: bit_xor_iff bit_drop_bit_eq bit_push_bit_iff dest: bit_imp_le_length)
  have e14: "\<not> (bit v 3 \<noteq> (bit v 11 \<noteq> (bit v 14 \<noteq> (bit v 22 \<noteq> bit v 33))))"
    using b [of 14]
    by (auto simp: bit_xor_iff bit_drop_bit_eq bit_push_bit_iff dest: bit_imp_le_length)
  have e15: "\<not> (bit v 4 \<noteq> (bit v 12 \<noteq> (bit v 15 \<noteq> (bit v 23 \<noteq> bit v 34))))"
    using b [of 15]
    by (auto simp: bit_xor_iff bit_drop_bit_eq bit_push_bit_iff dest: bit_imp_le_length)
  have e16: "\<not> (bit v 5 \<noteq> (bit v 13 \<noteq> (bit v 16 \<noteq> (bit v 24 \<noteq> bit v 35))))"
    using b [of 16]
    by (auto simp: bit_xor_iff bit_drop_bit_eq bit_push_bit_iff dest: bit_imp_le_length)
  have e17: "\<not> (bit v 6 \<noteq> (bit v 14 \<noteq> (bit v 17 \<noteq> (bit v 25 \<noteq> bit v 36))))"
    using b [of 17]
    by (auto simp: bit_xor_iff bit_drop_bit_eq bit_push_bit_iff dest: bit_imp_le_length)
  have e18: "\<not> (bit v 7 \<noteq> (bit v 15 \<noteq> (bit v 18 \<noteq> (bit v 26 \<noteq> bit v 37))))"
    using b [of 18]
    by (auto simp: bit_xor_iff bit_drop_bit_eq bit_push_bit_iff dest: bit_imp_le_length)
  have e19: "\<not> (bit v 8 \<noteq> (bit v 16 \<noteq> (bit v 19 \<noteq> (bit v 27 \<noteq> bit v 38))))"
    using b [of 19]
    by (auto simp: bit_xor_iff bit_drop_bit_eq bit_push_bit_iff dest: bit_imp_le_length)
  have e20: "\<not> (bit v 9 \<noteq> (bit v 17 \<noteq> (bit v 20 \<noteq> (bit v 28 \<noteq> bit v 39))))"
    using b [of 20]
    by (auto simp: bit_xor_iff bit_drop_bit_eq bit_push_bit_iff dest: bit_imp_le_length)
  have e21: "\<not> (bit v 10 \<noteq> (bit v 18 \<noteq> (bit v 21 \<noteq> (bit v 29 \<noteq> bit v 40))))"
    using b [of 21]
    by (auto simp: bit_xor_iff bit_drop_bit_eq bit_push_bit_iff dest: bit_imp_le_length)
  have e22: "\<not> (bit v 11 \<noteq> (bit v 19 \<noteq> (bit v 22 \<noteq> (bit v 30 \<noteq> bit v 41))))"
    using b [of 22]
    by (auto simp: bit_xor_iff bit_drop_bit_eq bit_push_bit_iff dest: bit_imp_le_length)
  have e23: "\<not> (bit v 12 \<noteq> (bit v 20 \<noteq> (bit v 23 \<noteq> (bit v 31 \<noteq> bit v 42))))"
    using b [of 23]
    by (auto simp: bit_xor_iff bit_drop_bit_eq bit_push_bit_iff dest: bit_imp_le_length)
  have e24: "\<not> (bit v 13 \<noteq> (bit v 21 \<noteq> (bit v 24 \<noteq> (bit v 32 \<noteq> bit v 43))))"
    using b [of 24]
    by (auto simp: bit_xor_iff bit_drop_bit_eq bit_push_bit_iff dest: bit_imp_le_length)
  have e25: "\<not> (bit v 14 \<noteq> (bit v 22 \<noteq> (bit v 25 \<noteq> (bit v 33 \<noteq> bit v 44))))"
    using b [of 25]
    by (auto simp: bit_xor_iff bit_drop_bit_eq bit_push_bit_iff dest: bit_imp_le_length)
  have e26: "\<not> (bit v 15 \<noteq> (bit v 23 \<noteq> (bit v 26 \<noteq> (bit v 34 \<noteq> bit v 45))))"
    using b [of 26]
    by (auto simp: bit_xor_iff bit_drop_bit_eq bit_push_bit_iff dest: bit_imp_le_length)
  have e27: "\<not> (bit v 16 \<noteq> (bit v 24 \<noteq> (bit v 27 \<noteq> (bit v 35 \<noteq> bit v 46))))"
    using b [of 27]
    by (auto simp: bit_xor_iff bit_drop_bit_eq bit_push_bit_iff dest: bit_imp_le_length)
  have e28: "\<not> (bit v 17 \<noteq> (bit v 25 \<noteq> (bit v 28 \<noteq> (bit v 36 \<noteq> bit v 47))))"
    using b [of 28]
    by (auto simp: bit_xor_iff bit_drop_bit_eq bit_push_bit_iff dest: bit_imp_le_length)
  have e29: "\<not> (bit v 18 \<noteq> (bit v 26 \<noteq> (bit v 29 \<noteq> (bit v 37 \<noteq> bit v 48))))"
    using b [of 29]
    by (auto simp: bit_xor_iff bit_drop_bit_eq bit_push_bit_iff dest: bit_imp_le_length)
  have e30: "\<not> (bit v 19 \<noteq> (bit v 27 \<noteq> (bit v 30 \<noteq> (bit v 38 \<noteq> bit v 49))))"
    using b [of 30]
    by (auto simp: bit_xor_iff bit_drop_bit_eq bit_push_bit_iff dest: bit_imp_le_length)
  have e31: "\<not> (bit v 20 \<noteq> (bit v 28 \<noteq> (bit v 31 \<noteq> (bit v 39 \<noteq> bit v 50))))"
    using b [of 31]
    by (auto simp: bit_xor_iff bit_drop_bit_eq bit_push_bit_iff dest: bit_imp_le_length)
  have e32: "\<not> (bit v 21 \<noteq> (bit v 29 \<noteq> (bit v 32 \<noteq> (bit v 40 \<noteq> bit v 51))))"
    using b [of 32]
    by (auto simp: bit_xor_iff bit_drop_bit_eq bit_push_bit_iff dest: bit_imp_le_length)
  have e33: "\<not> (bit v 22 \<noteq> (bit v 30 \<noteq> (bit v 33 \<noteq> (bit v 41 \<noteq> bit v 52))))"
    using b [of 33]
    by (auto simp: bit_xor_iff bit_drop_bit_eq bit_push_bit_iff dest: bit_imp_le_length)
  have e34: "\<not> (bit v 23 \<noteq> (bit v 31 \<noteq> (bit v 34 \<noteq> (bit v 42 \<noteq> bit v 53))))"
    using b [of 34]
    by (auto simp: bit_xor_iff bit_drop_bit_eq bit_push_bit_iff dest: bit_imp_le_length)
  have e35: "\<not> (bit v 24 \<noteq> (bit v 32 \<noteq> (bit v 35 \<noteq> (bit v 43 \<noteq> bit v 54))))"
    using b [of 35]
    by (auto simp: bit_xor_iff bit_drop_bit_eq bit_push_bit_iff dest: bit_imp_le_length)
  have e36: "\<not> (bit v 25 \<noteq> (bit v 33 \<noteq> (bit v 36 \<noteq> (bit v 44 \<noteq> bit v 55))))"
    using b [of 36]
    by (auto simp: bit_xor_iff bit_drop_bit_eq bit_push_bit_iff dest: bit_imp_le_length)
  have e37: "\<not> (bit v 26 \<noteq> (bit v 34 \<noteq> (bit v 37 \<noteq> (bit v 45 \<noteq> bit v 56))))"
    using b [of 37]
    by (auto simp: bit_xor_iff bit_drop_bit_eq bit_push_bit_iff dest: bit_imp_le_length)
  have e38: "\<not> (bit v 27 \<noteq> (bit v 35 \<noteq> (bit v 38 \<noteq> (bit v 46 \<noteq> bit v 57))))"
    using b [of 38]
    by (auto simp: bit_xor_iff bit_drop_bit_eq bit_push_bit_iff dest: bit_imp_le_length)
  have e39: "\<not> (bit v 28 \<noteq> (bit v 36 \<noteq> (bit v 39 \<noteq> (bit v 47 \<noteq> bit v 58))))"
    using b [of 39]
    by (auto simp: bit_xor_iff bit_drop_bit_eq bit_push_bit_iff dest: bit_imp_le_length)
  have e40: "\<not> (bit v 29 \<noteq> (bit v 37 \<noteq> (bit v 40 \<noteq> (bit v 48 \<noteq> bit v 59))))"
    using b [of 40]
    by (auto simp: bit_xor_iff bit_drop_bit_eq bit_push_bit_iff dest: bit_imp_le_length)
  have e41: "\<not> (bit v 30 \<noteq> (bit v 38 \<noteq> (bit v 41 \<noteq> (bit v 49 \<noteq> bit v 60))))"
    using b [of 41]
    by (auto simp: bit_xor_iff bit_drop_bit_eq bit_push_bit_iff dest: bit_imp_le_length)
  have e42: "\<not> (bit v 31 \<noteq> (bit v 39 \<noteq> (bit v 42 \<noteq> (bit v 50 \<noteq> bit v 61))))"
    using b [of 42]
    by (auto simp: bit_xor_iff bit_drop_bit_eq bit_push_bit_iff dest: bit_imp_le_length)
  have e43: "\<not> (bit v 32 \<noteq> (bit v 40 \<noteq> (bit v 43 \<noteq> (bit v 51 \<noteq> bit v 62))))"
    using b [of 43]
    by (auto simp: bit_xor_iff bit_drop_bit_eq bit_push_bit_iff dest: bit_imp_le_length)
  have e44: "\<not> (bit v 33 \<noteq> (bit v 41 \<noteq> (bit v 44 \<noteq> (bit v 52 \<noteq> bit v 63))))"
    using b [of 44]
    by (auto simp: bit_xor_iff bit_drop_bit_eq bit_push_bit_iff dest: bit_imp_le_length)
  have e45: "\<not> (bit v 34 \<noteq> (bit v 42 \<noteq> (bit v 45 \<noteq> bit v 53)))"
    using b [of 45]
    by (auto simp: bit_xor_iff bit_drop_bit_eq bit_push_bit_iff dest: bit_imp_le_length)
  have e46: "\<not> (bit v 35 \<noteq> (bit v 43 \<noteq> (bit v 46 \<noteq> bit v 54)))"
    using b [of 46]
    by (auto simp: bit_xor_iff bit_drop_bit_eq bit_push_bit_iff dest: bit_imp_le_length)
  have e47: "\<not> (bit v 36 \<noteq> (bit v 44 \<noteq> (bit v 47 \<noteq> bit v 55)))"
    using b [of 47]
    by (auto simp: bit_xor_iff bit_drop_bit_eq bit_push_bit_iff dest: bit_imp_le_length)
  have e48: "\<not> (bit v 37 \<noteq> (bit v 45 \<noteq> (bit v 48 \<noteq> bit v 56)))"
    using b [of 48]
    by (auto simp: bit_xor_iff bit_drop_bit_eq bit_push_bit_iff dest: bit_imp_le_length)
  have e49: "\<not> (bit v 38 \<noteq> (bit v 46 \<noteq> (bit v 49 \<noteq> bit v 57)))"
    using b [of 49]
    by (auto simp: bit_xor_iff bit_drop_bit_eq bit_push_bit_iff dest: bit_imp_le_length)
  have e50: "\<not> (bit v 39 \<noteq> (bit v 47 \<noteq> (bit v 50 \<noteq> bit v 58)))"
    using b [of 50]
    by (auto simp: bit_xor_iff bit_drop_bit_eq bit_push_bit_iff dest: bit_imp_le_length)
  have e51: "\<not> (bit v 40 \<noteq> (bit v 48 \<noteq> (bit v 51 \<noteq> bit v 59)))"
    using b [of 51]
    by (auto simp: bit_xor_iff bit_drop_bit_eq bit_push_bit_iff dest: bit_imp_le_length)
  have e52: "\<not> (bit v 41 \<noteq> (bit v 49 \<noteq> (bit v 52 \<noteq> bit v 60)))"
    using b [of 52]
    by (auto simp: bit_xor_iff bit_drop_bit_eq bit_push_bit_iff dest: bit_imp_le_length)
  have e53: "\<not> (bit v 42 \<noteq> (bit v 50 \<noteq> (bit v 53 \<noteq> bit v 61)))"
    using b [of 53]
    by (auto simp: bit_xor_iff bit_drop_bit_eq bit_push_bit_iff dest: bit_imp_le_length)
  have e54: "\<not> (bit v 43 \<noteq> (bit v 51 \<noteq> (bit v 54 \<noteq> bit v 62)))"
    using b [of 54]
    by (auto simp: bit_xor_iff bit_drop_bit_eq bit_push_bit_iff dest: bit_imp_le_length)
  have e55: "\<not> (bit v 44 \<noteq> (bit v 52 \<noteq> (bit v 55 \<noteq> bit v 63)))"
    using b [of 55]
    by (auto simp: bit_xor_iff bit_drop_bit_eq bit_push_bit_iff dest: bit_imp_le_length)
  have e56: "\<not> (bit v 45 \<noteq> bit v 56)"
    using b [of 56]
    by (auto simp: bit_xor_iff bit_drop_bit_eq bit_push_bit_iff dest: bit_imp_le_length)
  have e57: "\<not> (bit v 46 \<noteq> bit v 57)"
    using b [of 57]
    by (auto simp: bit_xor_iff bit_drop_bit_eq bit_push_bit_iff dest: bit_imp_le_length)
  have e58: "\<not> (bit v 47 \<noteq> bit v 58)"
    using b [of 58]
    by (auto simp: bit_xor_iff bit_drop_bit_eq bit_push_bit_iff dest: bit_imp_le_length)
  have e59: "\<not> (bit v 48 \<noteq> bit v 59)"
    using b [of 59]
    by (auto simp: bit_xor_iff bit_drop_bit_eq bit_push_bit_iff dest: bit_imp_le_length)
  have e60: "\<not> (bit v 49 \<noteq> bit v 60)"
    using b [of 60]
    by (auto simp: bit_xor_iff bit_drop_bit_eq bit_push_bit_iff dest: bit_imp_le_length)
  have e61: "\<not> (bit v 50 \<noteq> bit v 61)"
    using b [of 61]
    by (auto simp: bit_xor_iff bit_drop_bit_eq bit_push_bit_iff dest: bit_imp_le_length)
  have e62: "\<not> (bit v 51 \<noteq> bit v 62)"
    using b [of 62]
    by (auto simp: bit_xor_iff bit_drop_bit_eq bit_push_bit_iff dest: bit_imp_le_length)
  have e63: "\<not> (bit v 52 \<noteq> bit v 63)"
    using b [of 63]
    by (auto simp: bit_xor_iff bit_drop_bit_eq bit_push_bit_iff dest: bit_imp_le_length)
  have z: "\<not> bit v 0 \<and> \<not> bit v 1 \<and> \<not> bit v 2 \<and> \<not> bit v 3 \<and> \<not> bit v 4 \<and> \<not> bit v 5 \<and> \<not> bit v 6 \<and> \<not> bit v 7
      \<and> \<not> bit v 8 \<and> \<not> bit v 9 \<and> \<not> bit v 10 \<and> \<not> bit v 11 \<and> \<not> bit v 12 \<and> \<not> bit v 13 \<and> \<not> bit v 14 \<and> \<not> bit v 15
      \<and> \<not> bit v 16 \<and> \<not> bit v 17 \<and> \<not> bit v 18 \<and> \<not> bit v 19 \<and> \<not> bit v 20 \<and> \<not> bit v 21 \<and> \<not> bit v 22 \<and> \<not> bit v 23
      \<and> \<not> bit v 24 \<and> \<not> bit v 25 \<and> \<not> bit v 26 \<and> \<not> bit v 27 \<and> \<not> bit v 28 \<and> \<not> bit v 29 \<and> \<not> bit v 30 \<and> \<not> bit v 31
      \<and> \<not> bit v 32 \<and> \<not> bit v 33 \<and> \<not> bit v 34 \<and> \<not> bit v 35 \<and> \<not> bit v 36 \<and> \<not> bit v 37 \<and> \<not> bit v 38 \<and> \<not> bit v 39
      \<and> \<not> bit v 40 \<and> \<not> bit v 41 \<and> \<not> bit v 42 \<and> \<not> bit v 43 \<and> \<not> bit v 44 \<and> \<not> bit v 45 \<and> \<not> bit v 46 \<and> \<not> bit v 47
      \<and> \<not> bit v 48 \<and> \<not> bit v 49 \<and> \<not> bit v 50 \<and> \<not> bit v 51 \<and> \<not> bit v 52 \<and> \<not> bit v 53 \<and> \<not> bit v 54 \<and> \<not> bit v 55
      \<and> \<not> bit v 56 \<and> \<not> bit v 57 \<and> \<not> bit v 58 \<and> \<not> bit v 59 \<and> \<not> bit v 60 \<and> \<not> bit v 61 \<and> \<not> bit v 62 \<and> \<not> bit v 63"
    using e0 e1 e2 e3 e4 e5 e6 e7
      e8 e9 e10 e11 e12 e13 e14 e15
      e16 e17 e18 e19 e20 e21 e22 e23
      e24 e25 e26 e27 e28 e29 e30 e31
      e32 e33 e34 e35 e36 e37 e38 e39
      e40 e41 e42 e43 e44 e45 e46 e47
      e48 e49 e50 e51 e52 e53 e54 e55
      e56 e57 e58 e59 e60 e61 e62 e63
    by argo
  have "\<not> bit v n" for n
  proof (cases "n < 64")
    case False
    then show ?thesis by (auto dest: bit_imp_le_length)
  next
    case True
    then have "n \<in> set [0..<8] \<or> n \<in> set [8..<16] \<or> n \<in> set [16..<24] \<or> n \<in> set [24..<32]
      \<or> n \<in> set [32..<40] \<or> n \<in> set [40..<48] \<or> n \<in> set [48..<56] \<or> n \<in> set [56..<64]"
      by (simp only: set_upt atLeastLessThan_iff) arith
    then consider "n \<in> set [0..<8]" | "n \<in> set [8..<16]" | "n \<in> set [16..<24]" | "n \<in> set [24..<32]"
      | "n \<in> set [32..<40]" | "n \<in> set [40..<48]" | "n \<in> set [48..<56]" | "n \<in> set [56..<64]"
      by blast
    then show ?thesis
    proof cases
      case 1
      from this [unfolded upt_blocks] z show ?thesis by auto
    next
      case 2
      from this [unfolded upt_blocks] z show ?thesis by auto
    next
      case 3
      from this [unfolded upt_blocks] z show ?thesis by auto
    next
      case 4
      from this [unfolded upt_blocks] z show ?thesis by auto
    next
      case 5
      from this [unfolded upt_blocks] z show ?thesis by auto
    next
      case 6
      from this [unfolded upt_blocks] z show ?thesis by auto
    next
      case 7
      from this [unfolded upt_blocks] z show ?thesis by auto
    next
      case 8
      from this [unfolded upt_blocks] z show ?thesis by auto
    qed
  qed
  then show ?thesis by (simp add: bit_eq_iff)
qed

lemma next_state_components:
  "var_x (next_state g) = var_y g"
  "var_y (next_state g) = var_z g"
  "var_z (next_state g) = var_w g"
  "var_w (next_state g)
     = (var_w g XOR drop_bit 19 (var_w g))
       XOR ((var_x g XOR push_bit 11 (var_x g))
            XOR drop_bit 8 (var_x g XOR push_bit 11 (var_x g)))"
  by (simp_all add: next_state_def xorshift128_def Let_def)

lemma fixed_state_is_zero:
  assumes "next_state g = g"
  shows "g = initial_generator"
proof -
  let ?v = "var_w g"
  have "var_x (next_state g) = var_x g" "var_y (next_state g) = var_y g"
    "var_z (next_state g) = var_z g" "var_w (next_state g) = var_w g"
    by (simp_all only: assms)
  then have x: "var_y g = var_x g" and y: "var_z g = var_y g" and z: "var_w g = var_z g"
    and w: "(var_w g XOR drop_bit 19 (var_w g))
       XOR ((var_x g XOR push_bit 11 (var_x g))
            XOR drop_bit 8 (var_x g XOR push_bit 11 (var_x g))) = var_w g"
    by (simp_all only: next_state_components)
  from x y z have same: "var_x g = ?v" "var_y g = ?v" "var_z g = ?v" by simp_all
  let ?r = "(?v XOR push_bit 11 ?v) XOR drop_bit 8 (?v XOR push_bit 11 ?v)"
  from w have w': "(?v XOR drop_bit 19 ?v) XOR ?r = ?v"
    by (simp only: same)
  have "drop_bit 19 ?v XOR ?r = ((?v XOR drop_bit 19 ?v) XOR ?r) XOR ?v"
    by (simp only: xor.assoc xor.commute [of ?v] xor.left_commute [of ?v] xor_self_eq
        xor.right_neutral xor.left_neutral) 
  also have "\<dots> = 0" by (simp only: w' xor_self_eq)
  finally have "?v = 0" by (rule fixed_word_is_zero)
  with same show ?thesis by (simp add: initial_generator_def)
qed
lemma push_bit_xor_word: "push_bit n (a XOR b) = push_bit n a XOR push_bit n (b :: U64)"
  by (rule bit_eqI) (auto simp: bit_xor_iff bit_push_bit_iff)

lemma drop_bit_xor_word: "drop_bit n (a XOR b) = drop_bit n a XOR drop_bit n (b :: U64)"
  by (rule bit_eqI) (auto simp: bit_xor_iff bit_drop_bit_eq)

lemma xor_states_components:
  "var_x (xor_states a b) = var_x a XOR var_x b"
  "var_y (xor_states a b) = var_y a XOR var_y b"
  "var_z (xor_states a b) = var_z a XOR var_z b"
  "var_w (xor_states a b) = var_w a XOR var_w b"
  by (simp_all add: xor_states_def)

lemma xor_shuffle:
  fixes p q r s :: U64
  shows "(p XOR q) XOR (r XOR s) = (p XOR r) XOR (q XOR s)"
  by (simp add: ac_simps)

lemma next_state_xor: "next_state (xor_states a b) = xor_states (next_state a) (next_state b)"
proof (rule generator.equality)
  show "var_w (next_state (xor_states a b)) = var_w (xor_states (next_state a) (next_state b))"
    by (simp only: next_state_components xor_states_components push_bit_xor_word
        drop_bit_xor_word xor_shuffle)
qed (simp_all add: next_state_components xor_states_components)
lemma funpow_next_state_xor:
  "(next_state ^^ n) (xor_states a b)
     = xor_states ((next_state ^^ n) a) ((next_state ^^ n) b)"
  by (induction n) (simp_all add: next_state_xor)

lemma xor_states_self: "xor_states a a = initial_generator"
  by (rule generator.equality) (simp_all add: xor_states_components initial_generator_def)

lemma xor_word_eq_zero:
  fixes a b :: U64
  assumes "a XOR b = 0"
  shows "a = b"
proof (rule bit_eqI)
  fix n
  from assms have "\<not> bit (a XOR b) n" by simp
  then show "bit a n = bit b n" by (simp add: bit_xor_iff)
qed

lemma xor_states_eq_zero: "xor_states a b = initial_generator \<Longrightarrow> a = b"
proof -
  assume "xor_states a b = initial_generator"
  then have x: "var_x a XOR var_x b = 0" and y: "var_y a XOR var_y b = 0"
    and z: "var_z a XOR var_z b = 0" and w: "var_w a XOR var_w b = 0"
    by (simp_all add: xor_states_def initial_generator_def)
  have "var_x a = var_x b" using x by (rule xor_word_eq_zero)
  moreover have "var_y a = var_y b" using y by (rule xor_word_eq_zero)
  moreover have "var_z a = var_z b" using z by (rule xor_word_eq_zero)
  moreover have "var_w a = var_w b" using w by (rule xor_word_eq_zero)
  ultimately show "a = b" by simp
qed

lemma xor_states_shuffle:
  "xor_states (xor_states p a) (xor_states q b) = xor_states (xor_states p q) (xor_states a b)"
  by (rule generator.equality) (simp_all add: xor_states_components ac_simps)

lemma finite_generators: "finite (UNIV :: generator set)"
proof -
  have "(UNIV :: generator set)
      \<subseteq> (\<lambda>(a, b, c, d). \<lparr>var_x = a, var_y = b, var_z = c, var_w = d\<rparr>) ` UNIV"
  proof
    fix g :: generator
    have "g = (\<lambda>(a, b, c, d). \<lparr>var_x = a, var_y = b, var_z = c, var_w = d\<rparr>)
        (var_x g, var_y g, var_z g, var_w g)"
      by simp
    then show "g \<in> (\<lambda>(a, b, c, d). \<lparr>var_x = a, var_y = b, var_z = c, var_w = d\<rparr>) ` UNIV"
      by (rule image_eqI) simp
  qed
  then show ?thesis
    by (rule finite_subset) simp
qed

text \<open>
  No bit of the output is stuck at one. The states from which bit \<open>j\<close> of every later
  output is zero form a finite set \<open>U\<close> that \<open>g \<mapsto> next_state g XOR g\<close> maps into itself,
  injectively because only the zero state is fixed, hence onto. If bit \<open>j\<close> of every
  output from \<open>g\<close> were one, the image of \<open>g\<close> would be in \<open>U\<close>, so \<open>g\<close> itself would.
\<close>

lemma output_bit_not_stuck:
  "\<exists>n. \<not> bit (var_w ((next_state ^^ Suc n) g)) j"
proof (rule ccontr)
  assume "\<not> (\<exists>n. \<not> bit (var_w ((next_state ^^ Suc n) g)) j)"
  then have stuck: "bit (var_w ((next_state ^^ Suc n) g)) j" for n
    by simp
  define U where "U = {u. \<forall>n. \<not> bit (var_w ((next_state ^^ Suc n) u)) j}"
  define d where "d = (\<lambda>u. xor_states (next_state u) u)"
  have later: "var_w ((next_state ^^ Suc n) (d u))
      = var_w ((next_state ^^ Suc (Suc n)) u) XOR var_w ((next_state ^^ Suc n) u)" for n u
  proof -
    have "(next_state ^^ Suc n) (next_state u) = (next_state ^^ Suc (Suc n)) u"
      by (simp only: funpow_Suc_right [of "Suc n"] o_apply)
    then have "(next_state ^^ Suc n) (d u)
        = xor_states ((next_state ^^ Suc (Suc n)) u) ((next_state ^^ Suc n) u)"
      unfolding d_def by (simp only: funpow_next_state_xor)
    then show ?thesis by (simp only: xor_states_components)
  qed
  have later_bit: "bit (var_w ((next_state ^^ Suc n) (d u))) j
      \<longleftrightarrow> bit (var_w ((next_state ^^ Suc (Suc n)) u)) j
          \<noteq> bit (var_w ((next_state ^^ Suc n) u)) j" for n u
    by (simp only: later bit_xor_iff)
  have into: "d ` U \<subseteq> U"
  proof (rule image_subsetI)
    fix u assume "u \<in> U"
    then have zero: "\<not> bit (var_w ((next_state ^^ Suc n) u)) j" for n
      unfolding U_def by simp
    have "\<not> bit (var_w ((next_state ^^ Suc n) (d u))) j" for n
      using zero [of n] zero [of "Suc n"] by (simp only: later_bit)
    then show "d u \<in> U" unfolding U_def by simp
  qed
  have d_xor: "xor_states (d a) (d b) = d (xor_states a b)" for a b
    by (simp only: d_def next_state_xor xor_states_shuffle)
  have inj: "inj d"
  proof (rule injI)
    fix a b assume "d a = d b"
    then have "xor_states (d a) (d b) = initial_generator"
      by (simp only: xor_states_self)
    then have "d (xor_states a b) = initial_generator"
      by (simp only: d_xor)
    then have "next_state (xor_states a b) = xor_states a b"
      unfolding d_def by (rule xor_states_eq_zero)
    then have "xor_states a b = initial_generator"
      by (rule fixed_state_is_zero)
    then show "a = b" by (rule xor_states_eq_zero)
  qed
  have fin: "finite U"
    by (rule finite_subset [OF subset_UNIV finite_generators])
  have inj_on: "inj_on d U"
    using inj by (rule inj_on_subset) (rule subset_UNIV)
  have onto: "d ` U = U"
    using fin into inj_on by (rule endo_inj_surj)
  have "d g \<in> U"
  proof -
    have "\<not> bit (var_w ((next_state ^^ Suc n) (d g))) j" for n
      using stuck [of n] stuck [of "Suc n"] by (simp only: later_bit)
    then show ?thesis unfolding U_def by simp
  qed
  then have "d g \<in> d ` U" by (simp only: onto)
  then obtain u where u: "u \<in> U" and eq: "d g = d u" by (rule imageE)
  from inj eq have "g = u" by (rule injD)
  with u have "g \<in> U" by simp
  then have "\<not> bit (var_w ((next_state ^^ Suc 0) g)) j"
    unfolding U_def by (elim CollectE allE)
  with stuck [of 0] show False by simp
qed

text \<open>
  A sample whose bit below the top of the mask is clear is accepted: it is below half of
  the power of two, and the size of the range is at least that half.
\<close>

lemma clear_bit_is_accepted:
  fixes w r :: U64
  assumes k: "k < 64" and half: "2 ^ k \<le> uint r" and clear: "\<not> bit w k"
  shows "w mod 2 ^ Suc k < r"
proof -
  have "w mod 2 ^ Suc k = take_bit (Suc k) w"
    by (simp only: take_bit_eq_mod)
  then have "uint (w mod 2 ^ Suc k) = take_bit (Suc k) (uint w)"
    by (simp only: unsigned_take_bit_eq)
  also have "\<dots> = 2 ^ k * of_bool (bit (uint w) k) + take_bit k (uint w)"
    by (rule take_bit_Suc_from_most)
  also have "\<dots> = take_bit k (uint w)"
    using clear by (simp add: bit_uint_iff)
  also have "\<dots> < 2 ^ k"
    by simp
  finally show ?thesis
    using half by (simp add: word_less_alt)
qed

lemma xorshift128_next_state: "xorshift128 g = (var_w (next_state g), next_state g)"
  by (simp add: next_state_def xorshift128_def Let_def)

lemma sample_loop_unfold:
  "next_power_of_two \<noteq> 0 \<Longrightarrow>
     sample_loop range' next_power_of_two g =
       (if var_w (next_state g) mod next_power_of_two \<ge> range'
        then sample_loop range' next_power_of_two (next_state g)
        else Some (var_w (next_state g) mod next_power_of_two, next_state g))"
  by (subst sample_loop.simps) (simp add: xorshift128_next_state Let_def)

text \<open>If some later sample is accepted, the loop returns, with a value below the range.\<close>

lemma sample_loop_returns:
  assumes "next_power_of_two \<noteq> 0"
    and "var_w ((next_state ^^ Suc n) g) mod next_power_of_two < range'"
  shows "\<exists>v g'. sample_loop range' next_power_of_two g = Some (v, g') \<and> v < range'"
  using assms(2)
proof (induction n arbitrary: g)
  case 0
  then have "var_w (next_state g) mod next_power_of_two < range'" by simp
  then show ?case
    by (simp add: sample_loop_unfold [OF assms(1), of range' g] not_le [symmetric])
next
  case (Suc n)
  show ?case
  proof (cases "var_w (next_state g) mod next_power_of_two < range'")
    case True
    then show ?thesis
      by (simp add: sample_loop_unfold [OF assms(1), of range' g] not_le [symmetric])
  next
    case False
    have "(next_state ^^ Suc n) (next_state g) = (next_state ^^ Suc (Suc n)) g"
      by (simp only: funpow_Suc_right [of "Suc n"] o_apply)
    with Suc.prems have "var_w ((next_state ^^ Suc n) (next_state g)) mod next_power_of_two
        < range'"
      by simp
    from Suc.IH [OF this] obtain v g' where
      "sample_loop range' next_power_of_two (next_state g) = Some (v, g')" "v < range'"
      by blast
    with False show ?thesis
      by (simp add: sample_loop_unfold [OF assms(1), of range' g] not_less)
  qed
qed

text \<open>The size of the range and the value returned, as integers.\<close>

lemma sint_32_bounds:
  fixes a :: S32
  shows "- 2147483648 \<le> sint a" "sint a < 2147483648"
  using sint_ge [of a] sint_lt [of a] by simp_all

lemma range_size:
  fixes minimum maximum :: S32
  assumes "sint minimum \<le> sint maximum"
  shows "uint ((scast maximum :: U64) - scast minimum + 1) = sint maximum - sint minimum + 1"
proof -
  let ?k = "sint maximum - sint minimum + 1"
  have "(scast maximum :: U64) - scast minimum + 1 = word_of_int ?k"
    by (simp only: scast_eq of_int_diff of_int_add of_int_1)
  then have "uint ((scast maximum :: U64) - scast minimum + 1) = take_bit 64 ?k"
    by (simp only: uint_word_of_int_eq) simp
  also have "\<dots> = ?k"
    using assms sint_32_bounds [of minimum] sint_32_bounds [of maximum]
    by (intro take_bit_int_eq_self) simp_all
  finally show ?thesis .
qed

lemma signed_take_bit_window:
  fixes a b u :: int
  assumes "0 \<le> u" "u \<le> b - a" "- 2147483648 \<le> a" "b < 2147483648"
  shows "signed_take_bit 31 (a + u) = a + u"
  using assms by (intro signed_take_bit_int_eq_self) simp_all

lemma returned_value:
  fixes minimum maximum :: S32 and v :: U64
  assumes "uint v \<le> sint maximum - sint minimum"
  shows "sint (ucast ((scast minimum :: U64) + v) :: S32) = sint minimum + uint v"
proof -
  let ?i = "sint minimum + uint v"
  have "(scast minimum :: U64) + v = word_of_int (sint minimum) + word_of_int (uint v)"
    by (simp only: scast_eq word_of_int_uint)
  also have "\<dots> = word_of_int ?i" by simp
  finally have "(ucast ((scast minimum :: U64) + v) :: S32) = ucast (word_of_int ?i :: U64)"
    by simp
  also have "\<dots> = (word_of_int ?i :: S32)"
    by (rule ucast_down_wi) (simp add: is_down)
  finally have "sint (ucast ((scast minimum :: U64) + v) :: S32) = signed_take_bit 31 ?i"
    by (simp only: sint_sbintrunc') simp
  also have "\<dots> = ?i"
  proof (rule signed_take_bit_window)
    show "0 \<le> uint v" by simp
    show "uint v \<le> sint maximum - sint minimum" by (rule assms)
    show "- 2147483648 \<le> sint minimum" by (rule sint_32_bounds)
    show "sint maximum < 2147483648" by (rule sint_32_bounds)
  qed
  finally show ?thesis .
qed

text \<open>
  C2: for every \<^verbatim>\<open>minimum \<le> maximum\<close> and every state of the generator,
  \<^verbatim>\<open>random_integer\<close> returns, and its value is between \<^verbatim>\<open>minimum\<close> and \<^verbatim>\<open>maximum\<close>
  inclusive; for \<^verbatim>\<open>maximum < minimum\<close> it returns 0 at once, leaving the generator
  untouched: no sample is drawn.
\<close>

theorem random_integer_in_range:
  "(sint minimum \<le> sint maximum \<longrightarrow>
      (\<exists>v g'. random_integer minimum maximum g = Some (v, g')
         \<and> sint minimum \<le> sint v \<and> sint v \<le> sint maximum))
   \<and> (sint maximum < sint minimum \<longrightarrow> random_integer minimum maximum g = Some (0, g))"
proof (intro conjI impI)
  assume "sint maximum < sint minimum"
  then show "random_integer minimum maximum g = Some (0, g)"
    by (simp add: random_integer_def)
next
  assume le: "sint minimum \<le> sint maximum"
  let ?r = "(scast maximum :: U64) - scast minimum + 1"
  let ?k = "bit_length (unat ?r)"
  have size: "uint ?r = sint maximum - sint minimum + 1"
    using le by (rule range_size)
  have r_int: "1 \<le> uint ?r" "uint ?r \<le> 4294967296"
    using le sint_32_bounds [of minimum] sint_32_bounds [of maximum]
    by (simp_all only: size)
  define ri where "ri = uint ?r"
  have ri: "1 \<le> ri" "ri \<le> 4294967296"
    using r_int by (simp_all only: ri_def)
  have u: "unat ?r = nat ri"
    unfolding ri_def by (rule unat_eq_nat_uint)
  have r_nat: "unat ?r \<noteq> 0" "unat ?r < 2 ^ 33" "unat ?r < 2 ^ 63"
    using ri unfolding u by simp_all
  have k_pos: "?k \<noteq> 0"
    using r_nat(1) by (simp add: bit_length.simps [of "unat ?r"])
  then obtain m where m: "?k = Suc m" by (cases ?k) simp_all
  have "?k \<le> 33" using r_nat(2) by (rule bit_length_le)
  with m have m64: "m < 64" by simp
  have "2 ^ (?k - 1) \<le> unat ?r" using r_nat(1) by (rule bit_length_lower)
  with m have "(2 :: nat) ^ m \<le> unat ?r" by simp
  then have "int (2 ^ m) \<le> int (unat ?r)" by (rule iffD2 [OF of_nat_le_iff])
  then have half: "2 ^ m \<le> uint ?r" by simp
  have npot: "find_next_power_of_two ?r = 2 ^ Suc m"
    by (simp only: find_next_power_of_two_def fnp2_loop_push_bit m) simp
  have "unat (find_next_power_of_two ?r) = 2 ^ ?k"
    using r_nat(3) by (rule unat_find_next_power_of_two)
  then have "unat (find_next_power_of_two ?r) \<noteq> 0" by simp
  then have nz: "(2 :: U64) ^ Suc m \<noteq> 0"
    by (simp only: npot) (simp add: unat_eq_0)
  from output_bit_not_stuck [of g m] obtain n where
    "\<not> bit (var_w ((next_state ^^ Suc n) g)) m" by blast
  with m64 half have "var_w ((next_state ^^ Suc n) g) mod 2 ^ Suc m < ?r"
    by (rule clear_bit_is_accepted)
  from sample_loop_returns [OF nz this] obtain v g' where
    loop: "sample_loop ?r (2 ^ Suc m) g = Some (v, g')" and below: "v < ?r"
    by blast
  from below have "uint v < uint ?r" by (simp only: word_less_alt)
  then have v_le: "uint v \<le> sint maximum - sint minimum"
    by (simp only: size)
  have cast_back: "sint (ucast ((scast minimum :: U64) + v) :: S32) = sint minimum + uint v"
    using v_le by (rule returned_value)
  have "random_integer minimum maximum g = Some (ucast ((scast minimum :: U64) + v), g')"
    using le loop by (simp add: random_integer_def Let_def npot del: power_Suc)
  moreover have "sint minimum \<le> sint (ucast ((scast minimum :: U64) + v) :: S32)"
    "sint (ucast ((scast minimum :: U64) + v) :: S32) \<le> sint maximum"
  proof -
    have "0 \<le> uint v" by simp
    then show "sint minimum \<le> sint (ucast ((scast minimum :: U64) + v) :: S32)"
      unfolding cast_back by linarith
    from v_le show "sint (ucast ((scast minimum :: U64) + v) :: S32) \<le> sint maximum"
      unfolding cast_back by linarith
  qed
  ultimately show "\<exists>v g'. random_integer minimum maximum g = Some (v, g')
      \<and> sint minimum \<le> sint v \<and> sint v \<le> sint maximum"
    by blast
qed

theorem random_integer_in_range_witness:
  "sint (- 3 :: S32) \<le> sint (4 :: S32)
   \<and> random_integer (- 3) 4 \<lparr>var_x = 1700000000, var_y = 0, var_z = 0, var_w = 0\<rparr>
       = Some (- 2, \<lparr>var_x = 0, var_y = 0, var_z = 0, var_w = 3478120377073\<rparr>)
   \<and> sint (- 3 :: S32) \<le> sint (- 2 :: S32) \<and> sint (- 2 :: S32) \<le> sint (4 :: S32)
   \<and> sint (3 :: S32) < sint (4 :: S32)
   \<and> random_integer 4 3 \<lparr>var_x = 1700000000, var_y = 0, var_z = 0, var_w = 0\<rparr>
       = Some (0, \<lparr>var_x = 1700000000, var_y = 0, var_z = 0, var_w = 0\<rparr>)"
proof -
  let ?g = "\<lparr>var_x = 1700000000, var_y = 0, var_z = 0, var_w = 0\<rparr>"
  have h1: "sint (- 3 :: S32) \<le> sint (4 :: S32)" and h2: "sint (3 :: S32) < sint (4 :: S32)"
    by simp_all
  have run: "random_integer (- 3) 4 ?g
      = Some (- 2, \<lparr>var_x = 0, var_y = 0, var_z = 0, var_w = 3478120377073\<rparr>)"
    by code_simp
  from random_integer_in_range [of "- 3" 4 ?g] h1
  have "\<exists>v g'. random_integer (- 3) 4 ?g = Some (v, g')
      \<and> sint (- 3 :: S32) \<le> sint v \<and> sint v \<le> sint (4 :: S32)"
    by blast
  then have in_range: "sint (- 3 :: S32) \<le> sint (- 2 :: S32)" "sint (- 2 :: S32) \<le> sint (4 :: S32)"
    by (simp_all only: run) simp_all
  from random_integer_in_range [of 4 3 ?g] h2
  have "random_integer 4 3 ?g = Some (0, ?g)"
    by blast
  with h1 h2 run in_range show ?thesis by (intro conjI)
qed

end
